theory Spec2Isabelle
  imports Main "HOL-Library.Product_Lexorder" "HOL-Library.Multiset"
begin

section \<open>The datetime library, as far as snappy uses it\<close>

text \<open>
  Python's \<open>datetime.datetime\<close> is a naive (zone-less) record of seven integer fields.
  Snapshot timestamps come from \<open>strptime\<close> and have \<open>microsecond = 0\<close>;
  \<open>datetime.now()\<close> carries microseconds. The arithmetic below follows CPython's
  pure-Python implementation (\<open>_is_leap\<close>, \<open>_days_before_year\<close>,
  \<open>_days_before_month\<close>, \<open>_ymd2ord\<close>, \<open>_isoweek1monday\<close>, \<open>isocalendar\<close>,
  \<open>__sub__\<close>). Python's \<open>//\<close> and \<open>%\<close> round to minus infinity, as \<open>div\<close> and
  \<open>mod\<close> on \<open>int\<close> do.
\<close>

record datetime =
  year :: int
  month :: int
  day :: int
  hour :: int
  minute :: int
  second :: int
  microsecond :: int

definition is_leap :: "int \<Rightarrow> bool" where
  "is_leap y \<longleftrightarrow> y mod 4 = 0 \<and> (y mod 100 \<noteq> 0 \<or> y mod 400 = 0)"

definition days_before_year :: "int \<Rightarrow> int" where
  "days_before_year y = (let y1 = y - 1 in y1 * 365 + y1 div 4 - y1 div 100 + y1 div 400)"

definition DAYS_IN_MONTH :: "int list" where
  "DAYS_IN_MONTH = [-1, 31, 28, 31, 30, 31, 30, 31, 31, 30, 31, 30, 31]"

definition DAYS_BEFORE_MONTH :: "int list" where
  "DAYS_BEFORE_MONTH = [-1, 0, 31, 59, 90, 120, 151, 181, 212, 243, 273, 304, 334]"

definition days_in_month :: "int \<Rightarrow> int \<Rightarrow> int" where
  "days_in_month y m = (if m = 2 \<and> is_leap y then 29 else DAYS_IN_MONTH ! nat m)"

definition days_before_month :: "int \<Rightarrow> int \<Rightarrow> int" where
  "days_before_month y m = DAYS_BEFORE_MONTH ! nat m + (if m > 2 \<and> is_leap y then 1 else 0)"

definition ymd2ord :: "int \<Rightarrow> int \<Rightarrow> int \<Rightarrow> int" where
  "ymd2ord y m d = days_before_year y + days_before_month y m + d"

definition toordinal :: "datetime \<Rightarrow> int" where
  "toordinal t = ymd2ord (year t) (month t) (day t)"

text \<open>
  The constructor of \<open>datetime\<close> refuses fields out of range with \<open>ValueError\<close>;
  every datetime object of a run satisfies \<open>valid_datetime\<close>.
\<close>

definition valid_datetime :: "datetime \<Rightarrow> bool" where
  "valid_datetime t \<longleftrightarrow>
     1 \<le> year t \<and> year t \<le> 9999 \<and> 1 \<le> month t \<and> month t \<le> 12 \<and>
     1 \<le> day t \<and> day t \<le> days_in_month (year t) (month t) \<and>
     0 \<le> hour t \<and> hour t \<le> 23 \<and> 0 \<le> minute t \<and> minute t \<le> 59 \<and>
     0 \<le> second t \<and> second t \<le> 59 \<and> 0 \<le> microsecond t \<and> microsecond t \<le> 999999"

text \<open>\<open>t.date()\<close>: dates are compared and hashed by value, as the triple is.\<close>

definition date :: "datetime \<Rightarrow> int \<times> int \<times> int" where
  "date t = (year t, month t, day t)"

text \<open>
  Two datetimes compare as the tuples of their fields do, lexicographically; the product
  order in scope is the lexicographic one.
\<close>

definition dt_key :: "datetime \<Rightarrow> int \<times> int \<times> int \<times> int \<times> int \<times> int \<times> int" where
  "dt_key t = (year t, month t, day t, hour t, minute t, second t, microsecond t)"

text \<open>
  \<open>(a - b).days\<close>: the difference is the timedelta of the three differences, normalised so
  that seconds and microseconds are non-negative; \<open>days\<close> is then the floor of the whole
  difference in days.
\<close>

definition day_seconds :: "datetime \<Rightarrow> int" where
  "day_seconds t = second t + minute t * 60 + hour t * 3600"

definition sub_days :: "datetime \<Rightarrow> datetime \<Rightarrow> int" where
  "sub_days a b =
     (let days = toordinal a - toordinal b;
          secs = day_seconds a - day_seconds b;
          us = microsecond a - microsecond b
      in ((days * 86400 + secs) * 1000000 + us) div (86400 * 1000000))"


definition isoweek1monday :: "int \<Rightarrow> int" where
  "isoweek1monday y =
     (let firstday = ymd2ord y 1 1;
          firstweekday = (firstday + 6) mod 7;
          week1monday = firstday - firstweekday
      in if firstweekday > 3 then week1monday + 7 else week1monday)"

text \<open>\<open>t.isocalendar()\<close>: the ISO year, the ISO week number and the ISO weekday.\<close>

definition isocalendar :: "datetime \<Rightarrow> int \<times> int \<times> int" where
  "isocalendar t =
     (let y = year t;
          today = ymd2ord (year t) (month t) (day t);
          week = (today - isoweek1monday y) div 7;
          wday = (today - isoweek1monday y) mod 7
      in if week < 0 then
           (y - 1, (today - isoweek1monday (y - 1)) div 7 + 1,
            (today - isoweek1monday (y - 1)) mod 7 + 1)
         else if week \<ge> 52 \<and> today \<ge> isoweek1monday (y + 1) then (y + 1, 1, wday + 1)
         else (y, week + 1, wday + 1))"

section \<open>Data structures\<close>

text \<open>
  The two dataclasses. \<open>RetentionSpec.prefix\<close> is named \<open>spec_prefix\<close> here, since
  the fields of both records live in one name space.
\<close>

record Snapshot =
  dataset :: string
  full_name :: string
  prefix :: string
  timestamp :: datetime
  tier :: string
  used :: int

record RetentionSpec =
  daily :: int
  weekly :: int
  monthly :: int
  yearly :: int
  spec_prefix :: string

section \<open>Helpers for retention logic\<close>

definition age_days :: "datetime \<Rightarrow> datetime \<Rightarrow> int" where
  "age_days ts now = sub_days now ts"

text \<open>
  A dict keeps its keys in insertion order; \<open>buckets.setdefault(k, []).append(s)\<close> appends
  to the list of an existing key and adds a new key at the end.
\<close>

fun setdefault_append :: "'k \<Rightarrow> 'v \<Rightarrow> ('k \<times> 'v list) list \<Rightarrow> ('k \<times> 'v list) list" where
  "setdefault_append k v [] = [(k, [v])]"
| "setdefault_append k v ((k', vs) # rest) =
     (if k' = k then (k', vs @ [v]) # rest else (k', vs) # setdefault_append k v rest)"

definition group_by :: "('v \<Rightarrow> 'k) \<Rightarrow> 'v list \<Rightarrow> ('k \<times> 'v list) list" where
  "group_by f xs = foldl (\<lambda>buckets s. setdefault_append (f s) s buckets) [] xs"

definition group_by_day :: "Snapshot list \<Rightarrow> ((int \<times> int \<times> int) \<times> Snapshot list) list" where
  "group_by_day snaps = group_by (\<lambda>s. date (timestamp s)) snaps"

definition group_by_week :: "Snapshot list \<Rightarrow> ((int \<times> int) \<times> Snapshot list) list" where
  "group_by_week snaps =
     group_by (\<lambda>s. case isocalendar (timestamp s) of (y, w, _) \<Rightarrow> (y, w)) snaps"

definition group_by_month :: "Snapshot list \<Rightarrow> ((int \<times> int) \<times> Snapshot list) list" where
  "group_by_month snaps = group_by (\<lambda>s. (year (timestamp s), month (timestamp s))) snaps"

definition group_by_year :: "Snapshot list \<Rightarrow> (int \<times> Snapshot list) list" where
  "group_by_year snaps = group_by (\<lambda>s. year (timestamp s)) snaps"

datatype error =
  ValueError string
| IndexError
| CalledProcessError "string list"

text \<open>
  \<open>sorted\<close> is a stable sort, as \<open>sort_key\<close> is; the key is the pair
  \<open>(s.used, s.timestamp)\<close>, compared lexicographically. \<open>[-1]\<close> raises
  \<open>IndexError\<close> on an empty list.
\<close>

definition best_key :: "Snapshot \<Rightarrow> int \<times> int \<times> int \<times> int \<times> int \<times> int \<times> int \<times> int" where
  "best_key s = (used s, dt_key (timestamp s))"

definition pick_best :: "Snapshot list \<Rightarrow> error + Snapshot" where
  "pick_best grp =
     (case sort_key best_key grp of [] \<Rightarrow> Inl IndexError | x # xs \<Rightarrow> Inr (last (x # xs)))"

section \<open>The age windows and the four zones\<close>

definition daily_window :: "RetentionSpec \<Rightarrow> int" where
  "daily_window spec = daily spec"

definition weekly_window :: "RetentionSpec \<Rightarrow> int" where
  "weekly_window spec = daily spec + weekly spec * 7"

definition monthly_window :: "RetentionSpec \<Rightarrow> int" where
  "monthly_window spec = weekly_window spec + monthly spec * 30"

definition yearly_window :: "RetentionSpec \<Rightarrow> int" where
  "yearly_window spec = monthly_window spec + yearly spec * 365"

text \<open>The conditions of the four list comprehensions, as predicates of the age.\<close>

definition in_daily :: "RetentionSpec \<Rightarrow> int \<Rightarrow> bool" where
  "in_daily spec age \<longleftrightarrow> age \<le> daily_window spec"

definition in_weekly :: "RetentionSpec \<Rightarrow> int \<Rightarrow> bool" where
  "in_weekly spec age \<longleftrightarrow> daily_window spec < age \<and> age \<le> weekly_window spec"

definition in_monthly :: "RetentionSpec \<Rightarrow> int \<Rightarrow> bool" where
  "in_monthly spec age \<longleftrightarrow> weekly_window spec < age \<and> age \<le> monthly_window spec"

definition in_yearly :: "RetentionSpec \<Rightarrow> int \<Rightarrow> bool" where
  "in_yearly spec age \<longleftrightarrow> age > monthly_window spec"

definition daily_zone :: "RetentionSpec \<Rightarrow> datetime \<Rightarrow> Snapshot list \<Rightarrow> Snapshot list" where
  "daily_zone spec now snaps = filter (\<lambda>s. in_daily spec (age_days (timestamp s) now)) snaps"

definition weekly_zone :: "RetentionSpec \<Rightarrow> datetime \<Rightarrow> Snapshot list \<Rightarrow> Snapshot list" where
  "weekly_zone spec now snaps = filter (\<lambda>s. in_weekly spec (age_days (timestamp s) now)) snaps"

definition monthly_zone :: "RetentionSpec \<Rightarrow> datetime \<Rightarrow> Snapshot list \<Rightarrow> Snapshot list" where
  "monthly_zone spec now snaps = filter (\<lambda>s. in_monthly spec (age_days (timestamp s) now)) snaps"

definition yearly_zone :: "RetentionSpec \<Rightarrow> datetime \<Rightarrow> Snapshot list \<Rightarrow> Snapshot list" where
  "yearly_zone spec now snaps = filter (\<lambda>s. in_yearly spec (age_days (timestamp s) now)) snaps"

section \<open>Strings\<close>

text \<open>
  Strings are lists of bytes here; the three non-ASCII characters of the messages are
  written as their UTF-8 bytes.
\<close>

definition ellipsis :: string where
  "ellipsis = [CHR 0xE2, CHR 0x80, CHR 0xA6]"

definition arrow :: string where
  "arrow = [CHR 0xE2, CHR 0x86, CHR 0x92]"

definition endash :: string where
  "endash = [CHR 0xE2, CHR 0x80, CHR 0x93]"

definition is_digit :: "char \<Rightarrow> bool" where
  "is_digit c \<longleftrightarrow> c \<in> set ''0123456789''"

definition digit_val :: "char \<Rightarrow> int" where
  "digit_val c = int (length (takeWhile (\<lambda>d. d \<noteq> c) ''0123456789''))"

definition num_val :: "string \<Rightarrow> int" where
  "num_val s = foldl (\<lambda>a c. a * 10 + digit_val c) 0 s"

fun str_nat :: "nat \<Rightarrow> string" where
  "str_nat n =
     (if n < 10 then [''0123456789'' ! n] else str_nat (n div 10) @ [''0123456789'' ! (n mod 10)])"

declare str_nat.simps [simp del]

definition str_int :: "int \<Rightarrow> string" where
  "str_int i = (if i < 0 then ''-'' @ str_nat (nat (- i)) else str_nat (nat i))"

text \<open>\<open>%02d\<close> and \<open>%04d\<close> of a number: zeros on the left up to the width.\<close>

definition zero_pad :: "nat \<Rightarrow> int \<Rightarrow> string" where
  "zero_pad width i = replicate (width - length (str_int i)) (CHR ''0'') @ str_int i"

text \<open>\<open>str\<close> of a date, and of a pair of integers.\<close>

definition str_date :: "int \<times> int \<times> int \<Rightarrow> string" where
  "str_date d = (case d of (y, m, dd) \<Rightarrow> zero_pad 4 y @ ''-'' @ zero_pad 2 m @ ''-'' @ zero_pad 2 dd)"

definition str_pair :: "int \<times> int \<Rightarrow> string" where
  "str_pair p = (case p of (a, b) \<Rightarrow> ''('' @ str_int a @ '', '' @ str_int b @ '')'')"

text \<open>
  \<open>now.strftime("%Y-%m-%d_%H:%M:%S")\<close>. The year of a wall-clock time has four digits;
  for a year below 1000 the padding of \<open>%Y\<close> depends on the platform, and the model pads.
\<close>

definition strftime :: "datetime \<Rightarrow> string" where
  "strftime t =
     zero_pad 4 (year t) @ ''-'' @ zero_pad 2 (month t) @ ''-'' @ zero_pad 2 (day t) @ ''_'' @
     zero_pad 2 (hour t) @ '':'' @ zero_pad 2 (minute t) @ '':'' @ zero_pad 2 (second t)"

text \<open>\<open>s.split(c)\<close> for a separator of one character: never an empty list.\<close>

fun split_on :: "char \<Rightarrow> string \<Rightarrow> string list" where
  "split_on c [] = [[]]"
| "split_on c (x # xs) =
     (if x = c then [] # split_on c xs
      else (case split_on c xs of p # ps \<Rightarrow> (x # p) # ps | [] \<Rightarrow> [[x]]))"

text \<open>\<open>s.split(c, 1)\<close> on a string that holds \<open>c\<close>: what is before the first \<open>c\<close>, and
  what is after it.\<close>

definition split_first :: "char \<Rightarrow> string \<Rightarrow> string \<times> string" where
  "split_first c s = (takeWhile (\<lambda>x. x \<noteq> c) s, drop 1 (dropWhile (\<lambda>x. x \<noteq> c) s))"

text \<open>\<open>' '.join(words)\<close>.\<close>

fun join_words :: "string list \<Rightarrow> string" where
  "join_words [] = []"
| "join_words [x] = x"
| "join_words (x # y # r) = x @ '' '' @ join_words (y # r)"

text \<open>
  \<open>s.replace(old, new)\<close> replaces every occurrence of \<open>old\<close>, found from left to
  right without overlap; for an empty \<open>old\<close> it puts \<open>new\<close> around every character.
\<close>

function replace_all :: "string \<Rightarrow> string \<Rightarrow> string \<Rightarrow> string" where
  "replace_all old new [] = []"
| "replace_all old new (c # cs) =
     (if old \<noteq> [] \<and> take (length old) (c # cs) = old
      then new @ replace_all old new (drop (length old) (c # cs))
      else c # replace_all old new cs)"
  by pat_completeness auto
termination
  by (relation "measure (\<lambda>(old, new, s). length s)") auto

definition py_replace :: "string \<Rightarrow> string \<Rightarrow> string \<Rightarrow> string" where
  "py_replace s old new =
     (if old = [] then new @ concat (map (\<lambda>c. c # new) s) else replace_all old new s)"

section \<open>Timestamp parsing\<close>

text \<open>
  The shape \<open>\d{4}-\d{2}-\d{2}_\d{2}:\d{2}:\d{2}\<close>: in the template, \<open>d\<close> stands for a
  digit and every other character for itself. (Python's \<open>\d\<close> also accepts the decimal
  digits of other scripts; the model knows the ASCII digits only.)
\<close>

definition ts_shape :: "string \<Rightarrow> bool" where
  "ts_shape s \<longleftrightarrow>
     list_all2 (\<lambda>p c. if p = CHR ''d'' then is_digit c else c = p) ''dddd-dd-dd_dd:dd:dd'' s"

text \<open>
  \<open>parse_timestamp\<close>, on the strings \<open>list_snapshots\<close> passes to it (of the shape above;
  \<open>strptime\<close> alone would also take fields of one digit). \<open>strptime\<close> raises
  \<open>ValueError\<close> when a field is out of range, also for second 60 and 61, which its
  pattern admits and the constructor of \<open>datetime\<close> refuses; the function catches it and
  raises its own \<open>ValueError\<close>.
\<close>

definition timestamp_fields :: "string \<Rightarrow> datetime" where
  "timestamp_fields ts =
     \<lparr> year = num_val (take 4 ts), month = num_val (take 2 (drop 5 ts)),
       day = num_val (take 2 (drop 8 ts)), hour = num_val (take 2 (drop 11 ts)),
       minute = num_val (take 2 (drop 14 ts)), second = num_val (take 2 (drop 17 ts)),
       microsecond = 0 \<rparr>"

definition parse_timestamp :: "string \<Rightarrow> error + datetime" where
  "parse_timestamp ts =
     (if ts_shape ts \<and> valid_datetime (timestamp_fields ts) then Inr (timestamp_fields ts)
      else Inl (ValueError (''Unsupported timestamp: '' @ ts)))"

text \<open>
  \<open>int(s)\<close> on an optional sign and ASCII digits (Python also strips blanks and allows
  single underscores between digits).
\<close>

definition py_int :: "string \<Rightarrow> error + int" where
  "py_int s =
     (let neg = (take 1 s = ''-'');
          ds = (if take 1 s = ''-'' \<or> take 1 s = ''+'' then drop 1 s else s)
      in if ds \<noteq> [] \<and> list_all is_digit ds then Inr (if neg then - num_val ds else num_val ds)
         else Inl (ValueError (''invalid literal for int() with base 10: '' @ s)))"

section \<open>Output and external commands\<close>

text \<open>
  What a run does to the world is the sequence of its events: a line printed by one of the
  verbosity helpers, a line printed directly, a command handed to \<open>subprocess\<close>.
  \<open>VERBOSITY\<close> is set once, from the command line, and is a parameter here.
\<close>

datatype event = Verbose string | Print string | Run "string list"

type_synonym world = "event list"

text \<open>The events of a run that are not lines of the verbosity helpers.\<close>

fun is_verbose :: "event \<Rightarrow> bool" where
  "is_verbose (Verbose _) = True"
| "is_verbose _ = False"

definition actions :: "world \<Rightarrow> event list" where
  "actions w = filter (\<lambda>e. \<not> is_verbose e) w"

definition v1 :: "nat \<Rightarrow> string \<Rightarrow> world \<Rightarrow> world" where
  "v1 vb msg w = (if vb \<ge> 1 then w @ [Verbose msg] else w)"

definition v2 :: "nat \<Rightarrow> string \<Rightarrow> world \<Rightarrow> world" where
  "v2 vb msg w = (if vb \<ge> 2 then w @ [Verbose msg] else w)"

definition v3 :: "nat \<Rightarrow> string \<Rightarrow> world \<Rightarrow> world" where
  "v3 vb msg w = (if vb \<ge> 3 then w @ [Verbose msg] else w)"

text \<open>
  \<open>subprocess.check_call(cmd)\<close> runs the command and raises
  \<open>CalledProcessError\<close> when it exits with a non-zero status. Whether a command succeeds
  is up to the system: \<open>ok w cmd\<close> says so, given everything that happened before.
\<close>

type_synonym system = "world \<Rightarrow> string list \<Rightarrow> bool"

definition check_call :: "system \<Rightarrow> string list \<Rightarrow> world \<Rightarrow> error option \<times> world" where
  "check_call ok cmd w = (if ok w cmd then None else Some (CalledProcessError cmd), w @ [Run cmd])"

section \<open>ZFS operations\<close>

definition zfs_destroy :: "system \<Rightarrow> string \<Rightarrow> bool \<Rightarrow> world \<Rightarrow> error option \<times> world" where
  "zfs_destroy ok full dry w =
     (if dry then (None, w @ [Print (''[DRY] DELETE '' @ full)])
      else check_call ok [''zfs'', ''destroy'', full] (w @ [Print (''DELETE '' @ full)]))"

definition zfs_rename :: "system \<Rightarrow> string \<Rightarrow> string \<Rightarrow> bool \<Rightarrow> world \<Rightarrow> error option \<times> world" where
  "zfs_rename ok old new dry w =
     (if dry then (None, w @ [Print (''[DRY] RENAME '' @ old @ '' '' @ arrow @ '' '' @ new)])
      else check_call ok [''zfs'', ''rename'', old, new]
             (w @ [Print (''RENAME '' @ old @ '' '' @ arrow @ '' '' @ new)]))"

definition zfs_create :: "system \<Rightarrow> string \<Rightarrow> bool \<Rightarrow> world \<Rightarrow> error option \<times> world" where
  "zfs_create ok full dry w =
     (if dry then (None, w @ [Print (''[DRY] CREATE '' @ full)])
      else check_call ok [''zfs'', ''snapshot'', full] (w @ [Print (''CREATE '' @ full)]))"

section \<open>Snapshot enumeration\<close>

text \<open>
  The pattern \<open>^{prefix}-(timestamp)_(daily|weekly|monthly|yearly)$\<close>, matched from the
  start of the snapshot name: the prefix is escaped, so it stands for itself; \<open>$\<close> matches
  at the end and before a final newline. The result is the two groups.
\<close>

definition TIERS :: "string list" where
  "TIERS = [''daily'', ''weekly'', ''monthly'', ''yearly'']"

definition regex_match :: "string \<Rightarrow> string \<Rightarrow> (string \<times> string) option" where
  "regex_match pre snapname =
     (let rest = drop (length pre) snapname;
          ts = take 19 (drop 1 rest);
          tl_part = drop 20 rest
      in if take (length pre) snapname = pre \<and> take 1 rest = ''-'' \<and> ts_shape ts \<and>
            take 1 tl_part = ''_''
         then (case filter (\<lambda>t. drop 1 tl_part = t \<or> drop 1 tl_part = t @ [CHR 0x0A]) TIERS of
                 [] \<Rightarrow> None
               | t # _ \<Rightarrow> Some (ts, t))
         else None)"

text \<open>
  The loop over the lines of the listing. A line that does not split into exactly two
  fields at the tab makes the unpacking raise \<open>ValueError\<close>.
\<close>

fun scan_lines ::
  "nat \<Rightarrow> string \<Rightarrow> string list \<Rightarrow> Snapshot list \<Rightarrow> world \<Rightarrow> (error + Snapshot list) \<times> world"
where
  "scan_lines vb pre [] snaps w = (Inr snaps, w)"
| "scan_lines vb pre (line # rest) snaps w =
     (case split_on (CHR 0x09) line of
        [full, usd] \<Rightarrow>
          if CHR ''@'' \<notin> set full then scan_lines vb pre rest snaps w
          else
            (case regex_match pre (snd (split_first (CHR ''@'') full)) of
                  None \<Rightarrow>
                    scan_lines vb pre rest snaps (v3 vb (''Ignoring foreign snapshot: '' @ full) w)
                | Some (ts_str, tr) \<Rightarrow>
                    (case parse_timestamp ts_str of
                       Inl e \<Rightarrow> (Inl e, w)
                     | Inr ts \<Rightarrow>
                         (case py_int usd of
                            Inl e \<Rightarrow> (Inl e, w)
                          | Inr u \<Rightarrow>
                              scan_lines vb pre rest
                                (snaps @ [\<lparr> dataset = fst (split_first (CHR ''@'') full),
                                            full_name = full, prefix = pre,
                                            timestamp = ts, tier = tr, used = u \<rparr>]) w)))
      | [_] \<Rightarrow> (Inl (ValueError ''not enough values to unpack (expected 2, got 1)''), w)
      | _ \<Rightarrow> (Inl (ValueError ''too many values to unpack (expected 2)''), w))"

text \<open>
  \<open>zfs_out\<close> is what \<open>zfs list\<close> answers: \<open>None\<close> when the command fails
  (\<open>check_output\<close> raises), otherwise the lines of its output.
\<close>

definition list_snapshots ::
  "nat \<Rightarrow> string list option \<Rightarrow> string \<Rightarrow> string \<Rightarrow> world \<Rightarrow> (error + Snapshot list) \<times> world"
where
  "list_snapshots vb zfs_out ds pre w =
     (let cmd = [''zfs'', ''list'', ''-t'', ''snapshot'', ''-o'', ''name,used'', ''-H'',
                 ''-s'', ''creation'', ds];
          w1 = v3 vb (''Running zfs list: '' @ join_words cmd) w @ [Run cmd]
      in case zfs_out of
           None \<Rightarrow> (Inl (CalledProcessError cmd), w1)
         | Some raw_lines \<Rightarrow>
             (case scan_lines vb pre raw_lines [] w1 of
                (Inl e, w2) \<Rightarrow> (Inl e, w2)
              | (Inr snaps, w2) \<Rightarrow>
                  (Inr snaps,
                   v2 vb (''Found '' @ str_nat (length snaps) @ '' managed snapshots on '' @ ds) w2)))"

section \<open>Snapshot creation logic\<close>

definition create_daily_snapshot ::
  "system \<Rightarrow> nat \<Rightarrow> datetime \<Rightarrow> string \<Rightarrow> string \<Rightarrow> Snapshot list \<Rightarrow> bool \<Rightarrow> world
     \<Rightarrow> error option \<times> world"
where
  "create_daily_snapshot ok vb now ds pre snaps dry w =
     (let today = date now;
          create = zfs_create ok (ds @ ''@'' @ pre @ ''-'' @ strftime now @ ''_daily'') dry w
      in case (if snaps \<noteq> [] then Some (last snaps) else None) of
           Some lst \<Rightarrow>
             if date (timestamp lst) = today \<and> tier lst = ''daily'' then
               (None, v1 vb ''Skipped creation: daily snapshot for today already exists.'' w)
             else if used lst = 0 then
               (None, v1 vb ''Skipped creation: dataset unchanged since last snapshot.'' w)
             else create
         | None \<Rightarrow> create)"

section \<open>Tiered retention engine\<close>

text \<open>
  The state of the planner: the two sets, the list of renames, and the world. Nothing but
  membership is asked of \<open>keep\<close>. \<open>deletes\<close> is iterated over, so it is kept as the
  list of its distinct members as they were added; the order in which Python visits the
  members of a set is not that one, it depends on the hashes of the strings, and is a
  parameter of the run (\<open>set_iter\<close> below).
\<close>

record rstate =
  keep :: "string set"
  deletes :: "string list"
  renames :: "(string \<times> string) list"
  out :: world

definition set_add :: "'a \<Rightarrow> 'a list \<Rightarrow> 'a list" where
  "set_add x xs = (if x \<in> set xs then xs else xs @ [x])"

text \<open>
  The body of the loop over the buckets, which the source writes four times, with the tier
  and the label of the message changed. \<open>key\<close> is the bucket's key as the message prints
  it.
\<close>

definition process_bucket ::
  "nat \<Rightarrow> string \<Rightarrow> string \<Rightarrow> string \<Rightarrow> Snapshot list \<Rightarrow> rstate \<Rightarrow> error option \<times> rstate"
where
  "process_bucket vb label target key grp st =
     (case pick_best grp of
        Inl e \<Rightarrow> (Some e, st)
      | Inr best \<Rightarrow>
          let st1 = st\<lparr> out := v2 vb (label @ '' '' @ key @ '': '' @ str_nat (length grp) @
                                      '' snaps '' @ arrow @ '' keeping '' @ full_name best) (out st),
                        keep := insert (full_name best) (keep st) \<rparr>;
              st2 = (if tier best \<noteq> target then
                       let new = py_replace (full_name best) (''_'' @ tier best) (''_'' @ target)
                       in st1\<lparr> out := v1 vb (''Promote '' @ full_name best @ '' '' @ arrow @ '' '' @ new)
                                         (out st1),
                                renames := renames st1 @ [(full_name best, new)],
                                keep := insert new (keep st1) \<rparr>
                     else st1)
          in (None,
              foldl (\<lambda>a s. if full_name s \<noteq> full_name best
                            then a\<lparr> deletes := set_add (full_name s) (deletes a) \<rparr> else a)
                st2 grp))"

fun process_buckets ::
  "nat \<Rightarrow> string \<Rightarrow> string \<Rightarrow> (string \<times> Snapshot list) list \<Rightarrow> rstate \<Rightarrow> error option \<times> rstate"
where
  "process_buckets vb label target [] st = (None, st)"
| "process_buckets vb label target ((key, grp) # rest) st =
     (case process_bucket vb label target key grp st of
        (Some e, st') \<Rightarrow> (Some e, st')
      | (None, st') \<Rightarrow> process_buckets vb label target rest st')"

definition daily_pass ::
  "nat \<Rightarrow> RetentionSpec \<Rightarrow> datetime \<Rightarrow> Snapshot list \<Rightarrow> rstate \<Rightarrow> error option \<times> rstate"
where
  "daily_pass vb spec now snaps st =
     (let zone = daily_zone spec now snaps;
          w1 = v1 vb (''Processing DAILY tier'' @ ellipsis) (out st);
          w2 = v2 vb (''Daily zone contains '' @ str_nat (length zone) @ '' snapshots.'') w1
      in process_buckets vb ''Daily'' ''daily''
           (map (\<lambda>(k, g). (str_date k, g)) (group_by_day zone)) (st\<lparr> out := w2 \<rparr>))"

definition weekly_pass ::
  "nat \<Rightarrow> RetentionSpec \<Rightarrow> datetime \<Rightarrow> Snapshot list \<Rightarrow> rstate \<Rightarrow> error option \<times> rstate"
where
  "weekly_pass vb spec now snaps st =
     (let zone = weekly_zone spec now snaps;
          w1 = v1 vb (''Processing WEEKLY tier'' @ ellipsis) (out st)
      in process_buckets vb ''Weekly'' ''weekly''
           (map (\<lambda>(k, g). (str_pair k, g)) (group_by_week zone)) (st\<lparr> out := w1 \<rparr>))"

definition monthly_pass ::
  "nat \<Rightarrow> RetentionSpec \<Rightarrow> datetime \<Rightarrow> Snapshot list \<Rightarrow> rstate \<Rightarrow> error option \<times> rstate"
where
  "monthly_pass vb spec now snaps st =
     (let zone = monthly_zone spec now snaps;
          w1 = v1 vb (''Processing MONTHLY tier'' @ ellipsis) (out st)
      in process_buckets vb ''Monthly'' ''monthly''
           (map (\<lambda>(k, g). (str_pair k, g)) (group_by_month zone)) (st\<lparr> out := w1 \<rparr>))"

definition yearly_pass ::
  "nat \<Rightarrow> RetentionSpec \<Rightarrow> datetime \<Rightarrow> Snapshot list \<Rightarrow> rstate \<Rightarrow> error option \<times> rstate"
where
  "yearly_pass vb spec now snaps st =
     (let zone = yearly_zone spec now snaps;
          w1 = v1 vb (''Processing YEARLY tier'' @ ellipsis) (out st)
      in process_buckets vb ''Yearly'' ''yearly''
           (map (\<lambda>(k, g). (str_int k, g)) (group_by_year zone)) (st\<lparr> out := w1 \<rparr>))"

text \<open>Sequencing: a step runs only if nothing was raised before it.\<close>

definition and_then ::
  "error option \<times> 'a \<Rightarrow> ('a \<Rightarrow> error option \<times> 'a) \<Rightarrow> error option \<times> 'a"
where
  "and_then r f = (case r of (None, st) \<Rightarrow> f st | (Some e, st) \<Rightarrow> (Some e, st))"

text \<open>The planning part of \<open>tiered_retention\<close>, from the sort to the end of the yearly loop.\<close>

definition plan_phase ::
  "nat \<Rightarrow> datetime \<Rightarrow> Snapshot list \<Rightarrow> RetentionSpec \<Rightarrow> world \<Rightarrow> error option \<times> rstate"
where
  "plan_phase vb now snaps0 spec w =
     (let snaps = sort_key (\<lambda>s. dt_key (timestamp s)) snaps0;
          w1 = v3 vb (''Sorted '' @ str_nat (length snaps) @ '' snapshots.'') w;
          w2 = v3 vb (''Daily window:   0'' @ endash @ str_int (daily_window spec) @ '' days'') w1;
          w3 = v3 vb (''Weekly window:  '' @ str_int (daily_window spec + 1) @ endash @
                      str_int (weekly_window spec) @ '' days'') w2;
          w4 = v3 vb (''Monthly window: '' @ str_int (weekly_window spec + 1) @ endash @
                      str_int (monthly_window spec) @ '' days'') w3;
          w5 = v3 vb (''Yearly window:  '' @ str_int (monthly_window spec + 1) @ ''+ days'') w4;
          st0 = \<lparr> keep = {}, deletes = [], renames = [], out = w5 \<rparr>
      in and_then (and_then (and_then (daily_pass vb spec now snaps st0)
                     (weekly_pass vb spec now snaps))
                     (monthly_pass vb spec now snaps))
                     (yearly_pass vb spec now snaps))"

text \<open>The two loops of the execution part.\<close>

fun exec_renames ::
  "system \<Rightarrow> bool \<Rightarrow> string list \<Rightarrow> (string \<times> string) list \<Rightarrow> world \<Rightarrow> error option \<times> world"
where
  "exec_renames ok dry dels [] w = (None, w)"
| "exec_renames ok dry dels ((old, new) # rest) w =
     (if old \<noteq> new \<and> old \<notin> set dels then
        (case zfs_rename ok old new dry w of
           (Some e, w') \<Rightarrow> (Some e, w')
         | (None, w') \<Rightarrow> exec_renames ok dry dels rest w')
      else exec_renames ok dry dels rest w)"

fun exec_deletes ::
  "system \<Rightarrow> bool \<Rightarrow> string set \<Rightarrow> string list \<Rightarrow> world \<Rightarrow> error option \<times> world"
where
  "exec_deletes ok dry kp [] w = (None, w)"
| "exec_deletes ok dry kp (full # rest) w =
     (if full \<notin> kp then
        (case zfs_destroy ok full dry w of
           (Some e, w') \<Rightarrow> (Some e, w')
         | (None, w') \<Rightarrow> exec_deletes ok dry kp rest w')
      else exec_deletes ok dry kp rest w)"

definition exec_phase ::
  "(string list \<Rightarrow> string list) \<Rightarrow> system \<Rightarrow> nat \<Rightarrow> bool \<Rightarrow> rstate \<Rightarrow> error option \<times> rstate"
where
  "exec_phase set_iter ok vb dry st =
     (case exec_renames ok dry (deletes st) (renames st)
             (v1 vb (''Executing promotions'' @ ellipsis) (out st)) of
        (Some e, w1) \<Rightarrow> (Some e, st\<lparr> out := w1 \<rparr>)
      | (None, w1) \<Rightarrow>
          (case exec_deletes ok dry (keep st) (set_iter (deletes st))
                  (v1 vb (''Executing deletions'' @ ellipsis) w1) of
             (Some e, w2) \<Rightarrow> (Some e, st\<lparr> out := w2 \<rparr>)
           | (None, w2) \<Rightarrow> (None, st\<lparr> out := v1 vb ''Retention processing finished.'' w2 \<rparr>)))"

text \<open>
  \<open>tiered_retention\<close>. \<open>now\<close> is what \<open>datetime.now()\<close> returns, \<open>set_iter\<close> the order in
  which the members of \<open>deletes\<close> are visited, \<open>ok\<close> the answers of the system to the
  commands. The result is what was raised, if anything, and the final state: the plan and
  the events of the run.
\<close>

definition tiered_retention ::
  "(string list \<Rightarrow> string list) \<Rightarrow> system \<Rightarrow> nat \<Rightarrow> datetime \<Rightarrow> Snapshot list \<Rightarrow> RetentionSpec
     \<Rightarrow> bool \<Rightarrow> world \<Rightarrow> error option \<times> rstate"
where
  "tiered_retention set_iter ok vb now snaps spec dry w =
     (if snaps = [] then
        (None, \<lparr> keep = {}, deletes = [], renames = [],
                 out = v2 vb ''No snapshots to retain/prune.'' w \<rparr>)
      else and_then (plan_phase vb now snaps spec w) (exec_phase set_iter ok vb dry))"

section \<open>The execution part, as the specification describes it\<close>

text \<open>
  The specification describes the execution part as a sequence of operations carried out
  in order: every rename whose source differs from its destination and whose source is
  not marked for deletion, then every member of \<open>deletes\<close> that is not in \<open>keep\<close>.
  \<open>planned_ops\<close> is that sequence, \<open>run_ops\<close> carries a sequence out until a
  command fails, and \<open>op_events\<close> is what one operation adds to the world: the events of
  the call of \<open>zfs_rename\<close> or \<open>zfs_destroy\<close> itself. The loops of the source are
  compared with them below.
\<close>

datatype zfs_op = OpRename string string | OpDestroy string

fun perform :: "system \<Rightarrow> bool \<Rightarrow> zfs_op \<Rightarrow> world \<Rightarrow> error option \<times> world" where
  "perform ok dry (OpRename old new) w = zfs_rename ok old new dry w"
| "perform ok dry (OpDestroy full) w = zfs_destroy ok full dry w"

fun run_ops :: "system \<Rightarrow> bool \<Rightarrow> zfs_op list \<Rightarrow> world \<Rightarrow> error option \<times> world" where
  "run_ops ok dry [] w = (None, w)"
| "run_ops ok dry (op # ops) w =
     (case perform ok dry op w of
        (Some e, w') \<Rightarrow> (Some e, w')
      | (None, w') \<Rightarrow> run_ops ok dry ops w')"

definition op_events :: "bool \<Rightarrow> zfs_op \<Rightarrow> event list" where
  "op_events dry op = snd (perform (\<lambda>w c. True) dry op [])"

definition planned_ops :: "(string list \<Rightarrow> string list) \<Rightarrow> rstate \<Rightarrow> zfs_op list" where
  "planned_ops set_iter st =
     map (\<lambda>(old, new). OpRename old new)
       (filter (\<lambda>(old, new). old \<noteq> new \<and> old \<notin> set (deletes st)) (renames st)) @
     map OpDestroy (filter (\<lambda>full. full \<notin> keep st) (set_iter (deletes st)))"

text \<open>
  What the planner maintains: starting from \<open>st\<close> it raises nothing, adds to
  \<open>deletes\<close> and to the sources of \<open>renames\<close> only names of the given set, and adds
  only verbosity lines to the world.
\<close>

definition plan_within :: "string set \<Rightarrow> rstate \<Rightarrow> error option \<times> rstate \<Rightarrow> bool" where
  "plan_within names st r \<longleftrightarrow>
     fst r = None \<and>
     set (deletes (snd r)) \<subseteq> set (deletes st) \<union> names \<and>
     fst ` set (renames (snd r)) \<subseteq> fst ` set (renames st) \<union> names \<and>
     actions (out (snd r)) = actions (out st)"

text \<open>
  What a pass does with the snapshots whose names are \<open>names\<close>: starting from \<open>st\<close> it
  raises nothing and takes nothing back from \<open>keep\<close>, \<open>deletes\<close> and \<open>renames\<close>; it
  puts every one of the names into \<open>keep\<close> or into \<open>deletes\<close>; what it adds to
  \<open>deletes\<close> and to the sources of \<open>renames\<close> is among the names, and what it adds to
  \<open>keep\<close> is among the names and the destinations of \<open>renames\<close>.
\<close>

definition handles :: "string set \<Rightarrow> rstate \<Rightarrow> error option \<times> rstate \<Rightarrow> bool" where
  "handles names st r \<longleftrightarrow>
     fst r = None \<and>
     keep st \<subseteq> keep (snd r) \<and>
     set (deletes st) \<subseteq> set (deletes (snd r)) \<and>
     set (renames st) \<subseteq> set (renames (snd r)) \<and>
     names \<subseteq> keep (snd r) \<union> set (deletes (snd r)) \<and>
     set (deletes (snd r)) \<subseteq> set (deletes st) \<union> names \<and>
     fst ` set (renames (snd r)) \<subseteq> fst ` set (renames st) \<union> names \<and>
     keep (snd r) \<subseteq> keep st \<union> names \<union> snd ` set (renames (snd r))"

section \<open>Example inputs\<close>

text \<open>
  A clock reading, two retention specs and a few snapshots of the dataset \<open>tank\<close>, on which
  the theorems below are instantiated.
\<close>

definition now0 :: datetime where
  "now0 = \<lparr> year = 2024, month = 3, day = 10, hour = 12, minute = 0, second = 0,
            microsecond = 5 \<rparr>"

definition spec0 :: RetentionSpec where
  "spec0 = \<lparr> daily = 2, weekly = 1, monthly = 0, yearly = 0, spec_prefix = ''snappy'' \<rparr>"

definition spec_zero :: RetentionSpec where
  "spec_zero = \<lparr> daily = 0, weekly = 0, monthly = 0, yearly = 0, spec_prefix = ''snappy'' \<rparr>"

definition snap_today :: Snapshot where
  "snap_today = \<lparr> dataset = ''tank'', full_name = ''tank@snappy-2024-03-10_00:00:00_daily'',
       prefix = ''snappy'',
       timestamp = \<lparr> year = 2024, month = 3, day = 10, hour = 0, minute = 0, second = 0,
                     microsecond = 0 \<rparr>,
       tier = ''daily'', used = 100 \<rparr>"


definition snap_old :: Snapshot where
  "snap_old = \<lparr> dataset = ''tank'', full_name = ''tank@snappy-2024-02-01_00:00:00_daily'',
       prefix = ''snappy'',
       timestamp = \<lparr> year = 2024, month = 2, day = 1, hour = 0, minute = 0, second = 0,
                     microsecond = 0 \<rparr>,
       tier = ''daily'', used = 100 \<rparr>"

definition tie_a :: Snapshot where
  "tie_a = \<lparr> dataset = ''tank'', full_name = ''tank@snappy-2024-03-04_00:00:00_daily'',
       prefix = ''snappy'',
       timestamp = \<lparr> year = 2024, month = 3, day = 4, hour = 0, minute = 0, second = 0,
                     microsecond = 0 \<rparr>,
       tier = ''daily'', used = 0 \<rparr>"

definition tie_b :: Snapshot where
  "tie_b = \<lparr> dataset = ''tank'', full_name = ''tank@snappy-2024-03-04_00:00:00_weekly'',
       prefix = ''snappy'',
       timestamp = \<lparr> year = 2024, month = 3, day = 4, hour = 0, minute = 0, second = 0,
                     microsecond = 0 \<rparr>,
       tier = ''weekly'', used = 0 \<rparr>"

text \<open>
  A daily snapshot, five days old at \<open>now0\<close>, of a dataset whose own name ends in
  \<open>_daily\<close>.
\<close>

definition snap_tricky :: Snapshot where
  "snap_tricky = \<lparr> dataset = ''tank/my_daily'',
       full_name = ''tank/my_daily@snappy-2024-03-05_00:00:00_daily'', prefix = ''snappy'',
       timestamp = \<lparr> year = 2024, month = 3, day = 5, hour = 0, minute = 0, second = 0,
                     microsecond = 0 \<rparr>,
       tier = ''daily'', used = 100 \<rparr>"

text \<open>Yesterday's weekly snapshot, to which nothing was written since.\<close>

definition snap_zero :: Snapshot where
  "snap_zero = \<lparr> dataset = ''tank'', full_name = ''tank@snappy-2024-03-09_00:00:00_weekly'',
       prefix = ''snappy'',
       timestamp = \<lparr> year = 2024, month = 3, day = 9, hour = 0, minute = 0, second = 0,
                     microsecond = 0 \<rparr>,
       tier = ''weekly'', used = 0 \<rparr>"

text \<open>Four lines of a listing: a name and a size, with a tab between them.\<close>

definition line_month13 :: string where
  "line_month13 = ''tank@snappy-2024-13-01_00:00:00_daily'' @ [CHR 0x09] @ ''0''"

definition line_second61 :: string where
  "line_second61 = ''tank@snappy-2024-01-01_00:00:61_daily'' @ [CHR 0x09] @ ''0''"

definition line_foreign :: string where
  "line_foreign = ''tank@autosnap_2024-03-01_hourly'' @ [CHR 0x09] @ ''12K''"

definition line_ok :: string where
  "line_ok = ''tank@snappy-2024-03-10_00:00:00_daily'' @ [CHR 0x09] @ ''100''"

text \<open>
  Two snapshots of one ISO week, four and three days old at \<open>now0\<close>, and a listing of
  four snapshots.
\<close>

definition snap_wed :: Snapshot where
  "snap_wed = \<lparr> dataset = ''tank'', full_name = ''tank@snappy-2024-03-06_00:00:00_monthly'',
       prefix = ''snappy'',
       timestamp = \<lparr> year = 2024, month = 3, day = 6, hour = 0, minute = 0, second = 0,
                     microsecond = 0 \<rparr>,
       tier = ''monthly'', used = 200 \<rparr>"

definition snap_thu :: Snapshot where
  "snap_thu = \<lparr> dataset = ''tank'', full_name = ''tank@snappy-2024-03-07_00:00:00_daily'',
       prefix = ''snappy'',
       timestamp = \<lparr> year = 2024, month = 3, day = 7, hour = 0, minute = 0, second = 0,
                     microsecond = 0 \<rparr>,
       tier = ''daily'', used = 100 \<rparr>"

definition example_snaps :: "Snapshot list" where
  "example_snaps = [snap_old, snap_wed, snap_thu, snap_today]"



section \<open>Calendar arithmetic\<close>





lemma month_cases:
  "1 \<le> m \<Longrightarrow> m \<le> 12 \<Longrightarrow>
   m = 1 \<or> m = 2 \<or> m = 3 \<or> m = 4 \<or> m = 5 \<or> m = 6 \<or> m = 7 \<or> m = 8 \<or> m = 9 \<or> m = 10 \<or> m = 11 \<or> m = (12::int)"
  by presburger









section \<open>Grouping and selection\<close>

subsection \<open>Grouping\<close>

lemma map_fst_setdefault_append:
  "map fst (setdefault_append k v b) = (if k \<in> set (map fst b) then map fst b else map fst b @ [k])"
  by (induction b) (force simp: image_iff)+

lemma map_of_setdefault_append:
  "map_of (setdefault_append k v b) =
     (map_of b)(k \<mapsto> (case map_of b k of None \<Rightarrow> [v] | Some vs \<Rightarrow> vs @ [v]))"
  by (induction b) (auto simp: fun_eq_iff)

lemma group_by_snoc: "group_by f (xs @ [x]) = setdefault_append (f x) x (group_by f xs)"
  by (simp add: group_by_def)

lemma distinct_group_by: "distinct (map fst (group_by f xs))"
proof (induction xs rule: rev_induct)
  case Nil
  show ?case by (simp add: group_by_def)
next
  case (snoc x xs)
  then show ?case by (simp add: group_by_snoc map_fst_setdefault_append)
qed

lemma map_of_group_by:
  "map_of (group_by f xs) k =
     (if k \<in> f ` set xs then Some (filter (\<lambda>x. f x = k) xs) else None)"
proof (induction xs rule: rev_induct)
  case Nil
  show ?case by (simp add: group_by_def)
next
  case (snoc x xs)
  show ?case
    unfolding group_by_snoc map_of_setdefault_append
    using snoc by (auto simp: image_iff filter_empty_conv) metis
qed

lemma group_by_member:
  "(k, grp) \<in> set (group_by f xs) \<longleftrightarrow> k \<in> f ` set xs \<and> grp = filter (\<lambda>x. f x = k) xs"
proof -
  have "(k, grp) \<in> set (group_by f xs) \<longleftrightarrow> map_of (group_by f xs) k = Some grp"
    using distinct_group_by [of f xs] by simp
  then show ?thesis by (auto simp: map_of_group_by)
qed

lemma group_by_nonempty:
  assumes "(k, grp) \<in> set (group_by f xs)"
  shows "grp \<noteq> []" "set grp \<subseteq> set xs"
proof -
  from assms have k: "k \<in> f ` set xs" and g: "grp = filter (\<lambda>x. f x = k) xs"
    by (simp_all add: group_by_member)
  from k obtain x where "x \<in> set xs" "f x = k" by auto
  then have "x \<in> set grp" by (simp add: g)
  then show "grp \<noteq> []" by auto
  show "set grp \<subseteq> set xs" by (auto simp: g)
qed

subsection \<open>Selection\<close>

lemma last_filter:
  "xs \<noteq> [] \<Longrightarrow> P (last xs) \<Longrightarrow> last (filter P xs) = last xs"
  by (induction xs rule: rev_induct) auto

lemma sorted_last_max:
  "sorted (map f xs) \<Longrightarrow> x \<in> set xs \<Longrightarrow> f x \<le> f (last xs)"
proof (induction xs rule: rev_induct)
  case Nil
  then show ?case by simp
next
  case (snoc y ys)
  then show ?case by (auto simp: sorted_append)
qed

lemma sorted_filter_top:
  assumes "sorted (map f xs)" "xs \<noteq> []"
  shows "last (filter (\<lambda>y. f y = f (last xs)) xs) = last xs"
  using assms(2) by (intro last_filter) auto

lemma pick_best_sorted:
  assumes "grp \<noteq> []"
  shows "pick_best grp = Inr (last (sort_key best_key grp))"
proof -
  have "sort_key best_key grp \<noteq> []" using assms by (metis length_0_conv length_sort)
  then show ?thesis by (auto simp: pick_best_def split: list.splits)
qed

lemma pick_best_empty: "pick_best [] = Inl IndexError"
  by (simp add: pick_best_def)

lemma pick_best_max:
  assumes "grp \<noteq> []"
  shows "\<exists>b. pick_best grp = Inr b \<and> b \<in> set grp \<and>
           (\<forall>x. x \<in> set grp \<longrightarrow> best_key x \<le> best_key b) \<and>
           b = last (filter (\<lambda>y. best_key y = best_key b) grp)"
proof -
  let ?s = "sort_key best_key grp"
  have ne: "?s \<noteq> []" using assms by (metis length_0_conv length_sort)
  have srt: "sorted (map best_key ?s)" by simp
  have 1: "pick_best grp = Inr (last ?s)" by (rule pick_best_sorted [OF assms])
  have 2: "last ?s \<in> set grp" using ne last_in_set [of ?s] by simp
  have 3: "best_key x \<le> best_key (last ?s)" if "x \<in> set grp" for x
    using sorted_last_max [OF srt, of x] that by simp
  have "last (filter (\<lambda>y. best_key y = best_key (last ?s)) ?s) = last ?s"
    by (rule sorted_filter_top [OF srt ne])
  then have 4: "last ?s = last (filter (\<lambda>y. best_key y = best_key (last ?s)) grp)"
    by (simp add: sort_key_stable)
  show ?thesis using 1 2 3 4 by blast
qed

section \<open>The zones partition the ages\<close>

lemma zone_exclusive:
  assumes "0 \<le> weekly spec" "0 \<le> monthly spec"
  shows "(in_daily spec age \<or> in_weekly spec age \<or> in_monthly spec age \<or> in_yearly spec age) \<and>
         \<not> (in_daily spec age \<and> in_weekly spec age) \<and>
         \<not> (in_daily spec age \<and> in_monthly spec age) \<and>
         \<not> (in_daily spec age \<and> in_yearly spec age) \<and>
         \<not> (in_weekly spec age \<and> in_monthly spec age) \<and>
         \<not> (in_weekly spec age \<and> in_yearly spec age) \<and>
         \<not> (in_monthly spec age \<and> in_yearly spec age)"
  using assms
  unfolding in_daily_def in_weekly_def in_monthly_def in_yearly_def
    daily_window_def weekly_window_def monthly_window_def
  by linarith

lemma zones_mset:
  assumes "0 \<le> weekly spec" "0 \<le> monthly spec"
  shows "mset (daily_zone spec now snaps) + mset (weekly_zone spec now snaps) +
         mset (monthly_zone spec now snaps) + mset (yearly_zone spec now snaps) = mset snaps"
proof (induction snaps)
  case Nil
  show ?case by (simp add: daily_zone_def weekly_zone_def monthly_zone_def yearly_zone_def)
next
  case (Cons s snaps)
  show ?case
    using Cons zone_exclusive [OF assms, of "age_days (timestamp s) now"]
    by (auto simp: daily_zone_def weekly_zone_def monthly_zone_def yearly_zone_def)
qed

section \<open>Zero counts and snapshots from the future\<close>

text \<open>
  Claim C7, as stated, fails for two of the four tiers. With every count 0, a snapshot taken
  earlier on the day of the run has age 0 and is in the daily zone, and a snapshot 38 days old
  is in the yearly zone: a count of 0 empties neither.
\<close>

theorem zero_count_counterexample:
  "daily spec_zero = 0 \<and> in_daily spec_zero 0 \<and>
   daily_zone spec_zero now0 [snap_today] = [snap_today] \<and>
   yearly spec_zero = 0 \<and> in_yearly spec_zero 38 \<and>
   yearly_zone spec_zero now0 [snap_old] = [snap_old]"
  by (simp add: spec_zero_def now0_def snap_today_def snap_old_def in_daily_def in_yearly_def
      daily_zone_def yearly_zone_def daily_window_def weekly_window_def monthly_window_def
      age_days_def sub_days_def toordinal_def ymd2ord_def days_before_year_def
      days_before_month_def DAYS_BEFORE_MONTH_def is_leap_def day_seconds_def Let_def)

text \<open>
  Claim C7, amended. With \<open>monthly = 0\<close> the monthly window is the weekly window, no age
  is in the monthly zone, the monthly zone list is empty, and the yearly zone is exactly the
  ages above the weekly window. With \<open>weekly = 0\<close> the weekly zone is empty in the same
  way. With \<open>daily = 0\<close> the daily zone is not empty: it holds exactly the ages up to 0.
  The yearly zone does not depend on the yearly count at all.
\<close>

theorem zero_count_zones:
  "(monthly spec = 0 \<longrightarrow>
      monthly_window spec = weekly_window spec \<and> \<not> in_monthly spec age \<and>
      monthly_zone spec now snaps = [] \<and> (in_yearly spec age \<longleftrightarrow> weekly_window spec < age)) \<and>
   (weekly spec = 0 \<longrightarrow>
      weekly_window spec = daily_window spec \<and> \<not> in_weekly spec age \<and>
      weekly_zone spec now snaps = []) \<and>
   (daily spec = 0 \<longrightarrow> (in_daily spec age \<longleftrightarrow> age \<le> 0)) \<and>
   (in_yearly (spec\<lparr> yearly := n \<rparr>) age \<longleftrightarrow> in_yearly spec age)"
  by (simp add: in_daily_def in_weekly_def in_monthly_def in_yearly_def
      monthly_zone_def weekly_zone_def daily_window_def weekly_window_def monthly_window_def)

theorem zero_count_zones_witness:
  "monthly spec_zero = 0 \<and> weekly spec_zero = 0 \<and> daily spec_zero = 0 \<and>
   monthly_window spec_zero = weekly_window spec_zero \<and> \<not> in_monthly spec_zero 38 \<and>
   monthly_zone spec_zero now0 [snap_today, snap_old] = [] \<and>
   in_yearly spec_zero 38 \<and>
   weekly_window spec_zero = daily_window spec_zero \<and> \<not> in_weekly spec_zero 38 \<and>
   weekly_zone spec_zero now0 [snap_today, snap_old] = [] \<and>
   in_daily spec_zero 0 \<and> \<not> in_daily spec_zero 38"
proof -
  have h: "monthly spec_zero = 0" "weekly spec_zero = 0" "daily spec_zero = 0"
    by (simp_all add: spec_zero_def)
  have w: "weekly_window spec_zero < 38" by (simp add: weekly_window_def spec_zero_def)
  show ?thesis
    using h w zero_count_zones [of spec_zero 38 now0 "[snap_today, snap_old]" 0]
      zero_count_zones [of spec_zero 0 now0 "[snap_today, snap_old]" 0]
    by simp
qed



section \<open>The best snapshot of a bucket\<close>

lemma best_key_lex:
  "best_key x \<le> best_key b \<longleftrightarrow>
     used x < used b \<or> (used x = used b \<and> dt_key (timestamp x) \<le> dt_key (timestamp b))"
  by (auto simp: best_key_def)

text \<open>
  Claim C5, as stated, fails: two snapshots of one timestamp and one size, told apart only by
  their tier suffix, have the same key, and \<open>pick_best\<close> returns whichever is listed
  last. Reordering the group changes the result.
\<close>

theorem pick_best_permutation_counterexample:
  "mset [tie_b, tie_a] = mset [tie_a, tie_b] \<and> best_key tie_a = best_key tie_b \<and>
   pick_best [tie_a, tie_b] = Inr tie_b \<and> pick_best [tie_b, tie_a] = Inr tie_a \<and>
   tie_a \<noteq> tie_b"
  by (simp add: pick_best_def tie_a_def tie_b_def best_key_def dt_key_def)

text \<open>
  Claim C5, amended. On a non-empty group \<open>pick_best\<close> returns a member whose pair
  \<open>(used, timestamp)\<close> is maximal in the lexicographic order: every member has a smaller
  size, or the same size and a timestamp that is not later. Among the members with that
  maximal pair it returns the one listed last. On a reordering of the group it returns a
  member with the same pair, and the same member when no two members share a pair.
\<close>

theorem pick_best_maximal:
  assumes "grp \<noteq> []" "mset grp' = mset grp"
  shows "\<exists>b b'. pick_best grp = Inr b \<and> pick_best grp' = Inr b' \<and> b \<in> set grp \<and>
           (\<forall>x \<in> set grp. used x < used b \<or>
               (used x = used b \<and> dt_key (timestamp x) \<le> dt_key (timestamp b))) \<and>
           b = last (filter (\<lambda>y. best_key y = best_key b) grp) \<and>
           best_key b' = best_key b \<and>
           (inj_on best_key (set grp) \<longrightarrow> b' = b)"
proof -
  have ne': "grp' \<noteq> []" using assms by auto
  have s: "set grp' = set grp" using assms(2) by (rule mset_eq_setD)
  obtain b where b: "pick_best grp = Inr b" "b \<in> set grp"
      "\<And>x. x \<in> set grp \<Longrightarrow> best_key x \<le> best_key b"
      "b = last (filter (\<lambda>y. best_key y = best_key b) grp)"
    using pick_best_max [OF assms(1)] by blast
  obtain b' where b': "pick_best grp' = Inr b'" "b' \<in> set grp'"
      "\<And>x. x \<in> set grp' \<Longrightarrow> best_key x \<le> best_key b'"
    using pick_best_max [OF ne'] by blast
  have k: "best_key b' = best_key b"
    using b(2,3) b'(2,3) s by (intro antisym) auto
  have i: "inj_on best_key (set grp) \<longrightarrow> b' = b"
    using k b(2) b'(2) s by (auto dest: inj_onD)
  have l: "\<forall>x \<in> set grp. used x < used b \<or>
               (used x = used b \<and> dt_key (timestamp x) \<le> dt_key (timestamp b))"
    using b(3) by (simp add: best_key_lex)
  show ?thesis using b(1,2,4) b'(1) k i l by blast
qed

theorem pick_best_maximal_witness:
  "[snap_old, snap_today] \<noteq> [] \<and> mset [snap_today, snap_old] = mset [snap_old, snap_today] \<and>
   inj_on best_key (set [snap_old, snap_today]) \<and>
   (\<exists>b. pick_best [snap_old, snap_today] = Inr b \<and> pick_best [snap_today, snap_old] = Inr b \<and>
        b \<in> set [snap_old, snap_today])"
proof -
  have h1: "[snap_old, snap_today] \<noteq> []" by simp
  have h2: "mset [snap_today, snap_old] = mset [snap_old, snap_today]" by simp
  have h3: "inj_on best_key (set [snap_old, snap_today])"
    by (simp add: snap_old_def snap_today_def best_key_def dt_key_def)
  show ?thesis
    using h1 h2 h3 pick_best_maximal [OF h1 h2] by blast
qed

section \<open>Foreign and malformed snapshot names\<close>

subsection \<open>The lines of the listing\<close>

lemma split_on_none: "c \<notin> set b \<Longrightarrow> split_on c b = [b]"
  by (induction b) auto

lemma split_on_two: "c \<notin> set a \<Longrightarrow> c \<notin> set b \<Longrightarrow> split_on c (a @ c # b) = [a, b]"
  by (induction a) (auto simp: split_on_none)

lemma scan_lines_fst:
  "fst (scan_lines vb pre ls snaps w) = fst (scan_lines vb pre ls snaps w')"
proof (induction ls arbitrary: snaps w w')
  case Nil
  show ?case by simp
next
  case (Cons line rest)
  show ?case
    by (auto split: list.splits option.splits sum.splits intro: Cons.IH)
qed

lemma scan_lines_append:
  "scan_lines vb pre (l1 @ l2) snaps w =
     (case scan_lines vb pre l1 snaps w of
        (Inl e, w') \<Rightarrow> (Inl e, w')
      | (Inr snaps', w') \<Rightarrow> scan_lines vb pre l2 snaps' w')"
proof (induction l1 arbitrary: snaps w)
  case Nil
  show ?case by simp
next
  case (Cons line rest)
  show ?case
    by (auto split: list.splits option.splits sum.splits simp: Cons.IH)
qed

lemma scan_lines_foreign:
  assumes "CHR 0x09 \<notin> set full" "CHR 0x09 \<notin> set usd"
    and "CHR ''@'' \<notin> set full \<or> regex_match pre (snd (split_first (CHR ''@'') full)) = None"
  shows "scan_lines vb pre ((full @ CHR 0x09 # usd) # rest) snaps w =
           scan_lines vb pre rest snaps
             (if CHR ''@'' \<in> set full then v3 vb (''Ignoring foreign snapshot: '' @ full) w else w)"
  using assms(3) by (auto simp: split_on_two [OF assms(1,2)])

lemma scan_lines_malformed:
  assumes "CHR 0x09 \<notin> set full" "CHR 0x09 \<notin> set usd" "CHR ''@'' \<in> set full"
    and "regex_match pre (snd (split_first (CHR ''@'') full)) = Some (ts, tr)"
    and "\<not> valid_datetime (timestamp_fields ts)"
  shows "scan_lines vb pre ((full @ CHR 0x09 # usd) # rest) snaps w =
           (Inl (ValueError (''Unsupported timestamp: '' @ ts)), w)"
  using assms(3,4,5) by (simp add: split_on_two [OF assms(1,2)] parse_timestamp_def)

lemma fst_list_snapshots:
  "fst (list_snapshots vb (Some ls) ds pre w) = fst (scan_lines vb pre ls [] w')"
proof -
  have "fst (list_snapshots vb (Some ls) ds pre w) =
        fst (scan_lines vb pre ls []
          (v3 vb (''Running zfs list: '' @ join_words [''zfs'', ''list'', ''-t'', ''snapshot'', ''-o'',
             ''name,used'', ''-H'', ''-s'', ''creation'', ds]) w @
           [Run [''zfs'', ''list'', ''-t'', ''snapshot'', ''-o'', ''name,used'', ''-H'',
             ''-s'', ''creation'', ds]]))"
    by (simp add: list_snapshots_def Let_def split: prod.splits sum.splits)
  then show ?thesis using scan_lines_fst by metis
qed


lemma list_snapshots_Some:
  "list_snapshots vb (Some ls) ds pre w =
     (let cmd = [''zfs'', ''list'', ''-t'', ''snapshot'', ''-o'', ''name,used'', ''-H'',
                 ''-s'', ''creation'', ds];
          w1 = v3 vb (''Running zfs list: '' @ join_words cmd) w @ [Run cmd]
      in case scan_lines vb pre ls [] w1 of
           (Inl e, w2) \<Rightarrow> (Inl e, w2)
         | (Inr snaps, w2) \<Rightarrow>
             (Inr snaps,
              v2 vb (''Found '' @ str_nat (length snaps) @ '' managed snapshots on '' @ ds) w2))"
  by (simp add: list_snapshots_def)

text \<open>
  Claim C3, as stated, fails: a name of the right shape with month 13, or with second 61,
  passes the pattern, \<open>parse_timestamp\<close> raises \<open>ValueError\<close>, and nothing in
  \<open>list_snapshots\<close> catches it, although the two lines before are read without an error.
\<close>

theorem list_snapshots_raises_counterexample:
  "regex_match ''snappy'' ''snappy-2024-13-01_00:00:00_daily'' =
     Some (''2024-13-01_00:00:00'', ''daily'') \<and>
   fst (list_snapshots 0 (Some [line_ok, line_foreign, line_month13]) ''tank'' ''snappy'' []) =
     Inl (ValueError ''Unsupported timestamp: 2024-13-01_00:00:00'') \<and>
   fst (list_snapshots 0 (Some [line_second61]) ''tank'' ''snappy'' []) =
     Inl (ValueError ''Unsupported timestamp: 2024-01-01_00:00:61'')"
  by code_simp

text \<open>
  Claim C3, amended. Take a line of the listing, a name and a size with a tab between them.
  If the name has no \<open>@\<close>, or what follows its first \<open>@\<close> does not match the pattern, the
  line is skipped: the listing gives the same result, snapshots or error, as it gives
  without the line, and below verbosity 3 it also prints the same. If the name matches the
  pattern and its digits are not a valid date and time, and the lines before it were read
  without an error, \<open>list_snapshots\<close> raises the \<open>ValueError\<close> of \<open>parse_timestamp\<close>.
\<close>

theorem list_snapshots_foreign_or_malformed:
  assumes "CHR 0x09 \<notin> set full" "CHR 0x09 \<notin> set usd"
  shows
    "((CHR ''@'' \<notin> set full \<or> regex_match pre (snd (split_first (CHR ''@'') full)) = None) \<longrightarrow>
        fst (list_snapshots vb (Some (before @ (full @ CHR 0x09 # usd) # rest)) ds pre w) =
          fst (list_snapshots vb (Some (before @ rest)) ds pre w) \<and>
        (vb < 3 \<longrightarrow>
           list_snapshots vb (Some (before @ (full @ CHR 0x09 # usd) # rest)) ds pre w =
             list_snapshots vb (Some (before @ rest)) ds pre w)) \<and>
     (CHR ''@'' \<in> set full \<and>
      regex_match pre (snd (split_first (CHR ''@'') full)) = Some (ts, tr) \<and>
      \<not> valid_datetime (timestamp_fields ts) \<and>
      fst (list_snapshots vb (Some before) ds pre w) = Inr ss \<longrightarrow>
        fst (list_snapshots vb (Some (before @ (full @ CHR 0x09 # usd) # rest)) ds pre w) =
          Inl (ValueError (''Unsupported timestamp: '' @ ts)))"
proof (intro conjI impI)
  let ?line = "full @ CHR 0x09 # usd"
  assume f: "CHR ''@'' \<notin> set full \<or> regex_match pre (snd (split_first (CHR ''@'') full)) = None"
  have step: "fst (scan_lines vb pre (?line # rest) snaps u) = fst (scan_lines vb pre rest snaps u)"
    for snaps u
    unfolding scan_lines_foreign [OF assms f] by (rule scan_lines_fst)
  have "fst (scan_lines vb pre (before @ ?line # rest) [] []) =
        fst (scan_lines vb pre (before @ rest) [] [])"
    unfolding scan_lines_append [of vb pre before]
    by (auto split: prod.splits sum.splits simp: step simp del: scan_lines.simps)
  then show "fst (list_snapshots vb (Some (before @ ?line # rest)) ds pre w) =
          fst (list_snapshots vb (Some (before @ rest)) ds pre w)"
    by (simp add: fst_list_snapshots [where w' = "[]"])
next
  let ?line = "full @ CHR 0x09 # usd"
  assume f: "CHR ''@'' \<notin> set full \<or> regex_match pre (snd (split_first (CHR ''@'') full)) = None"
    and v: "vb < 3"
  have step: "scan_lines vb pre (?line # rest) snaps u = scan_lines vb pre rest snaps u"
    for snaps u
    unfolding scan_lines_foreign [OF assms f] using v by (simp add: v3_def)
  have "scan_lines vb pre (before @ ?line # rest) [] u = scan_lines vb pre (before @ rest) [] u"
    for u
    unfolding scan_lines_append [of vb pre before] by (simp only: step)
  then show "list_snapshots vb (Some (before @ ?line # rest)) ds pre w =
          list_snapshots vb (Some (before @ rest)) ds pre w"
    unfolding list_snapshots_Some by simp
next
  let ?line = "full @ CHR 0x09 # usd"
  assume a: "CHR ''@'' \<in> set full \<and>
      regex_match pre (snd (split_first (CHR ''@'') full)) = Some (ts, tr) \<and>
      \<not> valid_datetime (timestamp_fields ts) \<and>
      fst (list_snapshots vb (Some before) ds pre w) = Inr ss"
  then have b: "fst (scan_lines vb pre before [] []) = Inr ss"
    by (simp add: fst_list_snapshots [where w' = "[]"])
  have step: "scan_lines vb pre (?line # rest) snaps u =
      (Inl (ValueError (''Unsupported timestamp: '' @ ts)), u)" for snaps u
    using a by (intro scan_lines_malformed [OF assms]) auto
  have "fst (scan_lines vb pre (before @ ?line # rest) [] []) =
        Inl (ValueError (''Unsupported timestamp: '' @ ts))"
    unfolding scan_lines_append [of vb pre before] using b
    by (auto split: prod.splits sum.splits simp: step simp del: scan_lines.simps)
  then show "fst (list_snapshots vb (Some (before @ ?line # rest)) ds pre w) =
          Inl (ValueError (''Unsupported timestamp: '' @ ts))"
    by (simp add: fst_list_snapshots [where w' = "[]"])
qed

theorem list_snapshots_foreign_or_malformed_witness:
  "CHR 0x09 \<notin> set ''tank@autosnap_2024-03-01_hourly'' \<and> CHR 0x09 \<notin> set ''12K'' \<and>
   regex_match ''snappy'' (snd (split_first (CHR ''@'') ''tank@autosnap_2024-03-01_hourly'')) = None \<and>
   list_snapshots 0 (Some ([line_ok] @ (''tank@autosnap_2024-03-01_hourly'' @ CHR 0x09 # ''12K'') # []))
       ''tank'' ''snappy'' [] =
     list_snapshots 0 (Some ([line_ok] @ [])) ''tank'' ''snappy'' [] \<and>
   CHR 0x09 \<notin> set ''tank@snappy-2024-13-01_00:00:00_daily'' \<and> CHR 0x09 \<notin> set ''0'' \<and>
   CHR ''@'' \<in> set ''tank@snappy-2024-13-01_00:00:00_daily'' \<and>
   regex_match ''snappy'' (snd (split_first (CHR ''@'') ''tank@snappy-2024-13-01_00:00:00_daily'')) =
     Some (''2024-13-01_00:00:00'', ''daily'') \<and>
   \<not> valid_datetime (timestamp_fields ''2024-13-01_00:00:00'') \<and>
   fst (list_snapshots 0 (Some [line_ok]) ''tank'' ''snappy'' []) = Inr [snap_today] \<and>
   fst (list_snapshots 0 (Some ([line_ok] @ (''tank@snappy-2024-13-01_00:00:00_daily'' @ CHR 0x09 # ''0'') # []))
       ''tank'' ''snappy'' []) = Inl (ValueError (''Unsupported timestamp: '' @ ''2024-13-01_00:00:00''))"
proof -
  have a1: "CHR 0x09 \<notin> set ''tank@autosnap_2024-03-01_hourly''" "CHR 0x09 \<notin> set ''12K''"
    by simp_all
  have a2: "regex_match ''snappy'' (snd (split_first (CHR ''@'') ''tank@autosnap_2024-03-01_hourly'')) = None"
    by code_simp
  have b1: "CHR 0x09 \<notin> set ''tank@snappy-2024-13-01_00:00:00_daily''" "CHR 0x09 \<notin> set ''0''"
    by simp_all
  have b2: "CHR ''@'' \<in> set ''tank@snappy-2024-13-01_00:00:00_daily''" by simp
  have b3: "regex_match ''snappy'' (snd (split_first (CHR ''@'') ''tank@snappy-2024-13-01_00:00:00_daily'')) =
     Some (''2024-13-01_00:00:00'', ''daily'')"
    by code_simp
  have b4: "\<not> valid_datetime (timestamp_fields ''2024-13-01_00:00:00'')"
    by code_simp
  have b5: "fst (list_snapshots 0 (Some [line_ok]) ''tank'' ''snappy'' []) = Inr [snap_today]"
    by code_simp
  show ?thesis
    using a1 a2 b1 b2 b3 b4 b5
      list_snapshots_foreign_or_malformed [OF a1, where pre = "''snappy''" and vb = 0
         and before = "[line_ok]" and rest = "[]" and ds = "''tank''" and w = "[]"]
      list_snapshots_foreign_or_malformed [OF b1, where pre = "''snappy''"
         and ts = "''2024-13-01_00:00:00''" and tr = "''daily''" and vb = 0
         and before = "[line_ok]" and ds = "''tank''" and w = "[]" and ss = "[snap_today]"
         and rest = "[]"]
    by simp
qed

section \<open>Promotion names and the daily creator\<close>

text \<open>
  Claim C2 fails on the code. \<open>str.replace\<close> rewrites every occurrence of the old tier
  suffix, not only the last one. The snapshot \<open>snap_tricky\<close> is what the listing of the
  dataset \<open>tank/my_daily\<close> gives; it is five days old, so it is the survivor of a weekly
  bucket, and the new name the planner builds for it names another dataset,
  \<open>tank/my_weekly\<close>. The real run hands that name to \<open>zfs rename\<close>.
\<close>

theorem promotion_rewrites_dataset_name:
  "fst (list_snapshots 0
     (Some [''tank/my_daily@snappy-2024-03-05_00:00:00_daily'' @ CHR 0x09 # ''100''])
     ''tank/my_daily'' ''snappy'' []) = Inr [snap_tricky] \<and>
   py_replace ''tank/my_daily@snappy-2024-03-05_00:00:00_daily'' ''_daily'' ''_weekly'' =
     ''tank/my_weekly@snappy-2024-03-05_00:00:00_weekly'' \<and>
   renames (snd (tiered_retention (\<lambda>xs. xs) (\<lambda>w c. True) 0 now0 [snap_tricky] spec0 False [])) =
     [(''tank/my_daily@snappy-2024-03-05_00:00:00_daily'',
       ''tank/my_weekly@snappy-2024-03-05_00:00:00_weekly'')] \<and>
   last (out (snd (tiered_retention (\<lambda>xs. xs) (\<lambda>w c. True) 0 now0 [snap_tricky] spec0 False []))) =
     Run [''zfs'', ''rename'', ''tank/my_daily@snappy-2024-03-05_00:00:00_daily'',
          ''tank/my_weekly@snappy-2024-03-05_00:00:00_weekly'']"
  by code_simp

lemma actions_v1 [simp]: "actions (v1 vb msg w) = actions w"
  by (simp add: actions_def v1_def)

lemma actions_v2 [simp]: "actions (v2 vb msg w) = actions w"
  by (simp add: actions_def v2_def)

lemma actions_v3 [simp]: "actions (v3 vb msg w) = actions w"
  by (simp add: actions_def v3_def)

lemma actions_simps [simp]:
  "actions [] = []"
  "actions (Verbose m # w) = actions w"
  "actions (Print l # w) = Print l # actions w"
  "actions (Run c # w) = Run c # actions w"
  by (simp_all add: actions_def)

lemma actions_append [simp]: "actions (w @ w') = actions w @ actions w'"
  by (simp add: actions_def)

subsection \<open>The name of a new snapshot\<close>

lemma digit_cases: "k < 10 \<Longrightarrow> k = 0 \<or> k = 1 \<or> k = 2 \<or> k = 3 \<or> k = 4 \<or> k = 5 \<or> k = 6 \<or> k = 7 \<or> k = 8 \<or> k = (9::nat)"
  by arith

lemma digit_char:
  assumes "k < 10"
  shows "is_digit (''0123456789'' ! k)" "digit_val (''0123456789'' ! k) = int k"
  using digit_cases [OF assms] by (auto simp: is_digit_def digit_val_def)

lemma str_nat_1: "n < 10 \<Longrightarrow> str_nat n = [''0123456789'' ! n]"
  by (simp add: str_nat.simps)

lemma str_nat_2: "10 \<le> n \<Longrightarrow> n < 100 \<Longrightarrow> str_nat n = [''0123456789'' ! (n div 10), ''0123456789'' ! (n mod 10)]"
  by (subst str_nat.simps) (simp add: str_nat_1)

lemma str_nat_3: "100 \<le> n \<Longrightarrow> n < 1000 \<Longrightarrow>
   str_nat n = [''0123456789'' ! (n div 100), ''0123456789'' ! (n div 10 mod 10), ''0123456789'' ! (n mod 10)]"
  by (subst str_nat.simps) (simp add: str_nat_2 div_mult2_eq [symmetric])

lemma str_nat_4: "1000 \<le> n \<Longrightarrow> n < 10000 \<Longrightarrow>
   str_nat n = [''0123456789'' ! (n div 1000), ''0123456789'' ! (n div 100 mod 10),
                ''0123456789'' ! (n div 10 mod 10), ''0123456789'' ! (n mod 10)]"
  by (subst str_nat.simps) (simp add: str_nat_3 div_mult2_eq [symmetric])

lemma zero_pad_2:
  assumes "0 \<le> i" "i \<le> 99"
  shows "zero_pad 2 i = [''0123456789'' ! (nat i div 10), ''0123456789'' ! (nat i mod 10)]"
proof (cases "nat i < 10")
  case True
  then show ?thesis using assms by (simp add: zero_pad_def str_int_def str_nat_1)
next
  case False
  then show ?thesis using assms by (simp add: zero_pad_def str_int_def str_nat_2)
qed

lemma zero_pad_4:
  assumes "1000 \<le> i" "i \<le> 9999"
  shows "zero_pad 4 i = [''0123456789'' ! (nat i div 1000), ''0123456789'' ! (nat i div 100 mod 10),
                ''0123456789'' ! (nat i div 10 mod 10), ''0123456789'' ! (nat i mod 10)]"
  using assms by (simp add: zero_pad_def str_int_def str_nat_4)

lemma num_val_2:
  assumes "a < 10" "b < 10"
  shows "num_val [''0123456789'' ! a, ''0123456789'' ! b] = int a * 10 + int b"
  by (simp add: num_val_def digit_char [OF assms(1)] digit_char [OF assms(2)])

lemma num_val_4:
  assumes "a < 10" "b < 10" "c < 10" "d < 10"
  shows "num_val [''0123456789'' ! a, ''0123456789'' ! b, ''0123456789'' ! c, ''0123456789'' ! d] =
           int a * 1000 + int b * 100 + int c * 10 + int d"
  by (simp add: num_val_def digit_char [OF assms(1)] digit_char [OF assms(2)]
      digit_char [OF assms(3)] digit_char [OF assms(4)])


lemma days_in_month_le: "1 \<le> m \<Longrightarrow> m \<le> 12 \<Longrightarrow> days_in_month y m \<le> 31"
  using month_cases [of m] by (auto simp: days_in_month_def DAYS_IN_MONTH_def)

lemma two_digits:
  assumes "0 \<le> i" "i \<le> 99"
  shows "zero_pad 2 i = [''0123456789'' ! (nat i div 10), ''0123456789'' ! (nat i mod 10)]"
    and "nat i div 10 < 10" and "nat i mod 10 < 10"
    and "num_val [''0123456789'' ! (nat i div 10), ''0123456789'' ! (nat i mod 10)] = i"
proof -
  define n where "n = nat i"
  have n: "n \<le> 99" using assms by (simp add: n_def)
  have ii: "int (nat i) = i" using assms by simp
  show "zero_pad 2 i = [''0123456789'' ! (nat i div 10), ''0123456789'' ! (nat i mod 10)]"
    by (rule zero_pad_2 [OF assms])
  show a: "nat i div 10 < 10" using n unfolding n_def by simp
  show b: "nat i mod 10 < 10" by simp
  define qa where "qa = n div 10"
  define qb where "qb = n mod 10"
  have "qa * 10 + qb = n" unfolding qa_def qb_def by (rule div_mult_mod_eq)
  then have "int qa * 10 + int qb = int n" by linarith
  then have "int (n div 10) * 10 + int (n mod 10) = int n" unfolding qa_def qb_def .
  then have "int (nat i div 10) * 10 + int (nat i mod 10) = i" unfolding n_def ii .
  then show "num_val [''0123456789'' ! (nat i div 10), ''0123456789'' ! (nat i mod 10)] = i"
    unfolding num_val_2 [OF a b] .
qed

lemma four_digits:
  assumes "1000 \<le> i" "i \<le> 9999"
  shows "zero_pad 4 i = [''0123456789'' ! (nat i div 1000), ''0123456789'' ! (nat i div 100 mod 10),
                ''0123456789'' ! (nat i div 10 mod 10), ''0123456789'' ! (nat i mod 10)]"
    and "nat i div 1000 < 10" and "nat i div 100 mod 10 < 10" and "nat i div 10 mod 10 < 10"
    and "nat i mod 10 < 10"
    and "num_val [''0123456789'' ! (nat i div 1000), ''0123456789'' ! (nat i div 100 mod 10),
                ''0123456789'' ! (nat i div 10 mod 10), ''0123456789'' ! (nat i mod 10)] = i"
proof -
  define n where "n = nat i"
  have n: "n \<le> 9999" using assms by (simp add: n_def)
  have ii: "int (nat i) = i" using assms by simp
  show "zero_pad 4 i = [''0123456789'' ! (nat i div 1000), ''0123456789'' ! (nat i div 100 mod 10),
                ''0123456789'' ! (nat i div 10 mod 10), ''0123456789'' ! (nat i mod 10)]"
    by (rule zero_pad_4 [OF assms])
  show a: "nat i div 1000 < 10" using n unfolding n_def by simp
  show b: "nat i div 100 mod 10 < 10" by simp
  show c: "nat i div 10 mod 10 < 10" by simp
  show d: "nat i mod 10 < 10" by simp
  have 1: "n div 10 * 10 + n mod 10 = n" by (rule div_mult_mod_eq)
  have 2: "n div 100 * 10 + n div 10 mod 10 = n div 10"
    using div_mult_mod_eq [of "n div 10" 10] by (simp add: div_mult2_eq [symmetric])
  have 3: "n div 1000 * 10 + n div 100 mod 10 = n div 100"
    using div_mult_mod_eq [of "n div 100" 10] by (simp add: div_mult2_eq [symmetric])
  define qa where "qa = n div 1000"
  define qb where "qb = n div 100 mod 10"
  define qc where "qc = n div 10 mod 10"
  define qd where "qd = n mod 10"
  define h where "h = n div 100"
  define t where "t = n div 10"
  have e: "t * 10 + qd = n" "h * 10 + qc = t" "qa * 10 + qb = h"
    unfolding qa_def qb_def qc_def qd_def h_def t_def by (rule 1, rule 2, rule 3)
  have "qa * 1000 + qb * 100 + qc * 10 + qd = n"
    unfolding e(1) [symmetric] e(2) [symmetric] e(3) [symmetric] by simp
  then have "int qa * 1000 + int qb * 100 + int qc * 10 + int qd = int n" by linarith
  then have "int (n div 1000) * 1000 + int (n div 100 mod 10) * 100 + int (n div 10 mod 10) * 10
             + int (n mod 10) = int n"
    unfolding qa_def qb_def qc_def qd_def .
  then have "int (nat i div 1000) * 1000 + int (nat i div 100 mod 10) * 100 +
             int (nat i div 10 mod 10) * 10 + int (nat i mod 10) = i" unfolding n_def ii .
  then show "num_val [''0123456789'' ! (nat i div 1000), ''0123456789'' ! (nat i div 100 mod 10),
                ''0123456789'' ! (nat i div 10 mod 10), ''0123456789'' ! (nat i mod 10)] = i"
    unfolding num_val_4 [OF a b c d] .
qed


lemma two_digit_field:
  assumes "0 \<le> i" "i \<le> 99"
  shows "\<exists>a b. zero_pad 2 i = [a, b] \<and> is_digit a \<and> is_digit b \<and> num_val [a, b] = i"
  using two_digits [OF assms] digit_char by blast

lemma four_digit_field:
  assumes "1000 \<le> i" "i \<le> 9999"
  shows "\<exists>a b c d. zero_pad 4 i = [a, b, c, d] \<and> is_digit a \<and> is_digit b \<and> is_digit c \<and>
           is_digit d \<and> num_val [a, b, c, d] = i"
  using four_digits [OF assms] digit_char by blast

lemma strftime_parse:
  assumes "valid_datetime t" "1000 \<le> year t"
  shows "ts_shape (strftime t) \<and> timestamp_fields (strftime t) = t\<lparr> microsecond := 0 \<rparr>"
proof -
  have dm: "days_in_month (year t) (month t) \<le> 31"
    using assms(1) by (intro days_in_month_le) (simp_all add: valid_datetime_def)
  have r: "year t \<le> 9999" "0 \<le> month t" "month t \<le> 99" "0 \<le> day t" "day t \<le> 99"
    "0 \<le> hour t" "hour t \<le> 99" "0 \<le> minute t" "minute t \<le> 99"
    "0 \<le> second t" "second t \<le> 99"
    using assms(1) dm by (simp_all add: valid_datetime_def)
  obtain y1 y2 y3 y4 where y: "zero_pad 4 (year t) = [y1, y2, y3, y4]"
    "is_digit y1" "is_digit y2" "is_digit y3" "is_digit y4" "num_val [y1, y2, y3, y4] = year t"
    using four_digit_field [OF assms(2) r(1)] by blast
  obtain m1 m2 where m: "zero_pad 2 (month t) = [m1, m2]" "is_digit m1" "is_digit m2"
    "num_val [m1, m2] = month t"
    using two_digit_field [OF r(2,3)] by blast
  obtain d1 d2 where d: "zero_pad 2 (day t) = [d1, d2]" "is_digit d1" "is_digit d2"
    "num_val [d1, d2] = day t"
    using two_digit_field [OF r(4,5)] by blast
  obtain h1 h2 where h: "zero_pad 2 (hour t) = [h1, h2]" "is_digit h1" "is_digit h2"
    "num_val [h1, h2] = hour t"
    using two_digit_field [OF r(6,7)] by blast
  obtain n1 n2 where n: "zero_pad 2 (minute t) = [n1, n2]" "is_digit n1" "is_digit n2"
    "num_val [n1, n2] = minute t"
    using two_digit_field [OF r(8,9)] by blast
  obtain s1 s2 where s: "zero_pad 2 (second t) = [s1, s2]" "is_digit s1" "is_digit s2"
    "num_val [s1, s2] = second t"
    using two_digit_field [OF r(10,11)] by blast
  have f: "strftime t = [y1, y2, y3, y4, CHR ''-'', m1, m2, CHR ''-'', d1, d2, CHR ''_'',
      h1, h2, CHR '':'', n1, n2, CHR '':'', s1, s2]"
    by (simp add: strftime_def y(1) m(1) d(1) h(1) n(1) s(1))
  have 1: "ts_shape (strftime t)"
    unfolding f ts_shape_def using y m d h n s by simp
  have 2: "timestamp_fields (strftime t) = t\<lparr> microsecond := 0 \<rparr>"
    unfolding f timestamp_fields_def by (simp add: y(6) m(4) d(4) h(4) n(4) s(4))
  show ?thesis using 1 2 by simp
qed

lemma created_name_parses:
  assumes "valid_datetime now" "1000 \<le> year now"
  shows "regex_match pre (pre @ ''-'' @ strftime now @ ''_daily'') = Some (strftime now, ''daily'')"
    and "parse_timestamp (strftime now) = Inr (now\<lparr> microsecond := 0 \<rparr>)"
proof -
  note p = strftime_parse [OF assms]
  have l: "length (strftime now) = 19"
    using p by (auto simp: ts_shape_def dest: list_all2_lengthD)
  have v: "valid_datetime (now\<lparr> microsecond := 0 \<rparr>)"
    using assms(1) by (simp add: valid_datetime_def)
  show "parse_timestamp (strftime now) = Inr (now\<lparr> microsecond := 0 \<rparr>)"
    using p v by (simp add: parse_timestamp_def)
  show "regex_match pre (pre @ ''-'' @ strftime now @ ''_daily'') = Some (strftime now, ''daily'')"
    using p l by (simp add: regex_match_def TIERS_def Let_def)
qed

text \<open>
  Claim C6. The decision of the daily creator, in the order of the source: with a last
  snapshot of tier daily dated today, nothing is created; otherwise, with a last snapshot
  of size 0, nothing is created; otherwise, and always on an empty list, \<open>zfs_create\<close> is
  called on the name made of the dataset, the prefix, \<open>now\<close> and the tier daily. The two
  skips add no action to the world; the creation prints its line and, unless the run is
  dry, runs \<open>zfs snapshot\<close>. The name carries the tier daily and the timestamp \<open>now\<close>:
  for a clock in the years 1000 to 9999, the pattern of the listing matches the part of the
  name after the \<open>@\<close>, and \<open>parse_timestamp\<close> reads \<open>now\<close> back from it, to the second.
\<close>

theorem create_daily_decision:
  "create_daily_snapshot ok vb now ds pre snaps dry w =
     (if snaps \<noteq> [] \<and> date (timestamp (last snaps)) = date now \<and> tier (last snaps) = ''daily''
      then (None, v1 vb ''Skipped creation: daily snapshot for today already exists.'' w)
      else if snaps \<noteq> [] \<and> used (last snaps) = 0
      then (None, v1 vb ''Skipped creation: dataset unchanged since last snapshot.'' w)
      else zfs_create ok (ds @ ''@'' @ pre @ ''-'' @ strftime now @ ''_daily'') dry w) \<and>
   actions (v1 vb ''Skipped creation: daily snapshot for today already exists.'' w) = actions w \<and>
   actions (v1 vb ''Skipped creation: dataset unchanged since last snapshot.'' w) = actions w \<and>
   actions (snd (zfs_create ok (ds @ ''@'' @ pre @ ''-'' @ strftime now @ ''_daily'') dry w)) =
     actions w @
     (if dry then [Print (''[DRY] CREATE '' @ ds @ ''@'' @ pre @ ''-'' @ strftime now @ ''_daily'')]
      else [Print (''CREATE '' @ ds @ ''@'' @ pre @ ''-'' @ strftime now @ ''_daily''),
            Run [''zfs'', ''snapshot'', ds @ ''@'' @ pre @ ''-'' @ strftime now @ ''_daily'']]) \<and>
   (valid_datetime now \<and> 1000 \<le> year now \<longrightarrow>
      regex_match pre (pre @ ''-'' @ strftime now @ ''_daily'') = Some (strftime now, ''daily'') \<and>
      parse_timestamp (strftime now) = Inr (now\<lparr> microsecond := 0 \<rparr>))"
proof (intro conjI impI)
  show "create_daily_snapshot ok vb now ds pre snaps dry w =
     (if snaps \<noteq> [] \<and> date (timestamp (last snaps)) = date now \<and> tier (last snaps) = ''daily''
      then (None, v1 vb ''Skipped creation: daily snapshot for today already exists.'' w)
      else if snaps \<noteq> [] \<and> used (last snaps) = 0
      then (None, v1 vb ''Skipped creation: dataset unchanged since last snapshot.'' w)
      else zfs_create ok (ds @ ''@'' @ pre @ ''-'' @ strftime now @ ''_daily'') dry w)"
    by (simp add: create_daily_snapshot_def Let_def)
next
  assume "valid_datetime now \<and> 1000 \<le> year now"
  then show "regex_match pre (pre @ ''-'' @ strftime now @ ''_daily'') =
      Some (strftime now, ''daily'')"
    by (intro created_name_parses) simp_all
next
  assume "valid_datetime now \<and> 1000 \<le> year now"
  then show "parse_timestamp (strftime now) = Inr (now\<lparr> microsecond := 0 \<rparr>)"
    by (intro created_name_parses) simp_all
qed (simp_all add: zfs_create_def check_call_def)

theorem create_daily_decision_witness:
  "create_daily_snapshot (\<lambda>w c. True) 0 now0 ''tank'' ''snappy'' [snap_old, snap_today] False [] =
     (None, []) \<and>
   create_daily_snapshot (\<lambda>w c. True) 0 now0 ''tank'' ''snappy'' [snap_today, snap_zero] False [] =
     (None, []) \<and>
   create_daily_snapshot (\<lambda>w c. True) 0 now0 ''tank'' ''snappy'' [] False [] =
     (None, [Print ''CREATE tank@snappy-2024-03-10_12:00:00_daily'',
             Run [''zfs'', ''snapshot'', ''tank@snappy-2024-03-10_12:00:00_daily'']]) \<and>
   create_daily_snapshot (\<lambda>w c. True) 0 now0 ''tank'' ''snappy'' [snap_old] True [] =
     (None, [Print ''[DRY] CREATE tank@snappy-2024-03-10_12:00:00_daily'']) \<and>
   valid_datetime now0 \<and> 1000 \<le> year now0 \<and>
   regex_match ''snappy'' (''snappy'' @ ''-'' @ strftime now0 @ ''_daily'') =
     Some (''2024-03-10_12:00:00'', ''daily'') \<and>
   parse_timestamp (strftime now0) = Inr (now0\<lparr> microsecond := 0 \<rparr>)"
proof -
  have s: "strftime now0 = ''2024-03-10_12:00:00''" by code_simp
  have v: "valid_datetime now0 \<and> 1000 \<le> year now0"
    by (simp add: now0_def valid_datetime_def days_in_month_def DAYS_IN_MONTH_def)
  note d = create_daily_decision [THEN conjunct1]
  note c = create_daily_decision [of _ _ now0 _ "''snappy''", THEN conjunct2, THEN conjunct2,
      THEN conjunct2, THEN conjunct2, THEN mp, OF v]
  have a: "create_daily_snapshot (\<lambda>w c. True) 0 now0 ''tank'' ''snappy'' [snap_old, snap_today] False [] =
       (None, []) \<and>
     create_daily_snapshot (\<lambda>w c. True) 0 now0 ''tank'' ''snappy'' [snap_today, snap_zero] False [] =
       (None, []) \<and>
     create_daily_snapshot (\<lambda>w c. True) 0 now0 ''tank'' ''snappy'' [] False [] =
       (None, [Print ''CREATE tank@snappy-2024-03-10_12:00:00_daily'',
               Run [''zfs'', ''snapshot'', ''tank@snappy-2024-03-10_12:00:00_daily'']]) \<and>
     create_daily_snapshot (\<lambda>w c. True) 0 now0 ''tank'' ''snappy'' [snap_old] True [] =
       (None, [Print ''[DRY] CREATE tank@snappy-2024-03-10_12:00:00_daily''])"
    unfolding d s
    by (simp add: snap_old_def snap_today_def snap_zero_def now0_def date_def v1_def
        zfs_create_def check_call_def)
  show ?thesis using a v c by (simp add: s)
qed

section \<open>The planner and the execution part\<close>

subsection \<open>The execution loops\<close>

lemma perform_events: "snd (perform ok dry op w) = w @ op_events dry op"
  by (cases op) (simp_all add: op_events_def zfs_rename_def zfs_destroy_def check_call_def)




lemma exec_renames_run_ops:
  "exec_renames ok dry dels rs w =
     run_ops ok dry (map (\<lambda>(old, new). OpRename old new)
        (filter (\<lambda>(old, new). old \<noteq> new \<and> old \<notin> set dels) rs)) w"
  by (induction rs arbitrary: w) (auto split: prod.splits option.splits)

lemma exec_deletes_run_ops:
  "exec_deletes ok dry kp ds w =
     run_ops ok dry (map OpDestroy (filter (\<lambda>full. full \<notin> kp) ds)) w"
  by (induction ds arbitrary: w) (auto split: prod.splits option.splits)

lemma run_ops_append:
  "run_ops ok dry (ops1 @ ops2) w =
     (case run_ops ok dry ops1 w of
        (Some e, w') \<Rightarrow> (Some e, w')
      | (None, w') \<Rightarrow> run_ops ok dry ops2 w')"
  by (induction ops1 arbitrary: w) (auto split: prod.splits option.splits)

lemma run_ops_trace:
  "\<exists>k \<le> length ops. snd (run_ops ok dry ops w) = w @ concat (map (op_events dry) (take k ops)) \<and>
       (fst (run_ops ok dry ops w) = None \<longrightarrow> k = length ops)"
proof (induction ops arbitrary: w)
  case Nil
  show ?case by simp
next
  case (Cons op ops)
  obtain e w1 where p: "perform ok dry op w = (e, w1)" by (cases "perform ok dry op w")
  have w1: "w1 = w @ op_events dry op" using perform_events [of ok dry op w] p by simp
  show ?case
  proof (cases e)
    case (Some err)
    have a: "snd (run_ops ok dry (op # ops) w) = w @ concat (map (op_events dry) (take 1 (op # ops)))"
      using p Some w1 by simp
    have "fst (run_ops ok dry (op # ops) w) \<noteq> None" using p Some by simp
    then have b: "fst (run_ops ok dry (op # ops) w) = None \<longrightarrow> 1 = length (op # ops)" by blast
    have c: "1 \<le> length (op # ops)" by simp
    show ?thesis by (rule exI [of _ 1]) (intro conjI c a b)
  next
    case None
    from Cons [of w1] obtain k where k: "k \<le> length ops"
      "snd (run_ops ok dry ops w1) = w1 @ concat (map (op_events dry) (take k ops))"
      "fst (run_ops ok dry ops w1) = None \<longrightarrow> k = length ops"
      by (elim exE conjE) (rule that, assumption+)
    have a: "snd (run_ops ok dry (op # ops) w) =
            w @ concat (map (op_events dry) (take (Suc k) (op # ops)))"
      using p None k(2) w1 by simp
    have b: "fst (run_ops ok dry (op # ops) w) = None \<longrightarrow> Suc k = length (op # ops)"
      using p None k(3) by simp
    have c: "Suc k \<le> length (op # ops)" using k(1) by simp
    show ?thesis by (rule exI [of _ "Suc k"]) (intro conjI c a b)
  qed
qed



subsection \<open>The planner\<close>

lemma plan_within_refl: "plan_within names st (None, st)"
  by (simp add: plan_within_def)

lemma plan_within_and_then:
  assumes "plan_within names st r" "\<And>st'. plan_within names st' (f st')"
  shows "plan_within names st (and_then r f)"
proof -
  obtain st1 where r: "r = (None, st1)" using assms(1) by (cases r) (simp add: plan_within_def)
  have 1: "plan_within names st (None, st1)" using assms(1) r by simp
  have 2: "plan_within names st1 (f st1)" by (rule assms(2))
  have "plan_within names st (f st1)"
    using 1 2 by (simp add: plan_within_def) blast
  then show ?thesis by (simp add: r and_then_def)
qed

lemma plan_within_out:
  assumes "plan_within names (st\<lparr> out := w' \<rparr>) r" "actions w' = actions (out st)"
  shows "plan_within names st r"
  using assms by (simp add: plan_within_def)

lemma plan_within_mono: "plan_within A st r \<Longrightarrow> A \<subseteq> B \<Longrightarrow> plan_within B st r"
  unfolding plan_within_def by blast

lemma delete_rest:
  "keep (foldl (\<lambda>a s. if full_name s \<noteq> fb
                        then a\<lparr> deletes := set_add (full_name s) (deletes a) \<rparr> else a) st grp) = keep st \<and>
   renames (foldl (\<lambda>a s. if full_name s \<noteq> fb
                        then a\<lparr> deletes := set_add (full_name s) (deletes a) \<rparr> else a) st grp) = renames st \<and>
   out (foldl (\<lambda>a s. if full_name s \<noteq> fb
                        then a\<lparr> deletes := set_add (full_name s) (deletes a) \<rparr> else a) st grp) = out st \<and>
   set (deletes (foldl (\<lambda>a s. if full_name s \<noteq> fb
                        then a\<lparr> deletes := set_add (full_name s) (deletes a) \<rparr> else a) st grp)) =
     set (deletes st) \<union> {n \<in> full_name ` set grp. n \<noteq> fb}"
proof (induction grp arbitrary: st)
  case Nil
  show ?case by simp
next
  case (Cons s grp)
  show ?case
    unfolding foldl_Cons
    by (simp add: Cons set_add_def) blast
qed

lemma process_bucket_within:
  assumes "grp \<noteq> []"
  shows "plan_within (full_name ` set grp) st (process_bucket vb label target key grp st)"
proof -
  obtain b where b: "pick_best grp = Inr b" "b \<in> set grp"
    using pick_best_max [OF assms] by blast
  show ?thesis
    using b(2)
    by (simp add: process_bucket_def b(1) Let_def delete_rest plan_within_def) blast
qed

lemma process_buckets_within:
  assumes "\<And>k g. (k, g) \<in> set bs \<Longrightarrow> g \<noteq> [] \<and> set g \<subseteq> S"
  shows "plan_within (full_name ` S) st (process_buckets vb label target bs st)"
  using assms
proof (induction bs arbitrary: st)
  case Nil
  show ?case by (simp add: plan_within_refl)
next
  case (Cons kg bs)
  obtain k g where kg: "kg = (k, g)" by (cases kg)
  have g: "g \<noteq> []" "set g \<subseteq> S" using Cons.prems [of k g] kg by auto
  have 1: "plan_within (full_name ` S) st (process_bucket vb label target k g st)"
    by (rule plan_within_mono [OF process_bucket_within [OF g(1)]]) (use g(2) in blast)
  have 2: "plan_within (full_name ` S) st' (process_buckets vb label target bs st')" for st'
    using Cons.prems by (intro Cons.IH) auto
  have "process_buckets vb label target (kg # bs) st =
        and_then (process_bucket vb label target k g st) (process_buckets vb label target bs)"
    by (simp add: kg and_then_def split: prod.splits option.splits)
  then show ?case using plan_within_and_then [OF 1 2] by simp
qed

lemma keyed_groups:
  assumes "(k, g) \<in> set (map (\<lambda>(k, g). (str k, g)) (group_by f (filter P snaps)))"
  shows "g \<noteq> [] \<and> set g \<subseteq> set snaps"
proof -
  from assms obtain k' where "(k', g) \<in> set (group_by f (filter P snaps))" by auto
  from group_by_nonempty [OF this] show ?thesis by auto
qed

lemma buckets_pass_within:
  assumes "actions w' = actions (out st)"
  shows "plan_within (full_name ` set snaps) st
           (process_buckets vb label target
              (map (\<lambda>(k, g). (str k, g)) (group_by f (filter P snaps))) (st\<lparr> out := w' \<rparr>))"
proof -
  have "plan_within (full_name ` set snaps) (st\<lparr> out := w' \<rparr>)
          (process_buckets vb label target
             (map (\<lambda>(k, g). (str k, g)) (group_by f (filter P snaps))) (st\<lparr> out := w' \<rparr>))"
    by (rule process_buckets_within) (rule keyed_groups)
  then show ?thesis using assms by (rule plan_within_out)
qed

lemma daily_pass_within:
  "plan_within (full_name ` set snaps) st (daily_pass vb spec now snaps st)"
  unfolding daily_pass_def Let_def daily_zone_def group_by_day_def
  by (rule buckets_pass_within) simp

lemma weekly_pass_within:
  "plan_within (full_name ` set snaps) st (weekly_pass vb spec now snaps st)"
  unfolding weekly_pass_def Let_def weekly_zone_def group_by_week_def
  by (rule buckets_pass_within) simp

lemma monthly_pass_within:
  "plan_within (full_name ` set snaps) st (monthly_pass vb spec now snaps st)"
  unfolding monthly_pass_def Let_def monthly_zone_def group_by_month_def
  by (rule buckets_pass_within) simp

lemma yearly_pass_within:
  "plan_within (full_name ` set snaps) st (yearly_pass vb spec now snaps st)"
  unfolding yearly_pass_def Let_def yearly_zone_def group_by_year_def
  by (rule buckets_pass_within) simp

lemma plan_phase_within:
  "fst (plan_phase vb now snaps spec w) = None \<and>
   set (deletes (snd (plan_phase vb now snaps spec w))) \<subseteq> full_name ` set snaps \<and>
   fst ` set (renames (snd (plan_phase vb now snaps spec w))) \<subseteq> full_name ` set snaps \<and>
   actions (out (snd (plan_phase vb now snaps spec w))) = actions w"
proof -
  let ?s = "sort_key (\<lambda>s. dt_key (timestamp s)) snaps"
  let ?st0 = "\<lparr> keep = {}, deletes = [], renames = [],
     out = v3 vb (''Yearly window:  '' @ str_int (monthly_window spec + 1) @ ''+ days'')
      (v3 vb (''Monthly window: '' @ str_int (weekly_window spec + 1) @ endash @
                      str_int (monthly_window spec) @ '' days'')
      (v3 vb (''Weekly window:  '' @ str_int (daily_window spec + 1) @ endash @
                      str_int (weekly_window spec) @ '' days'')
      (v3 vb (''Daily window:   0'' @ endash @ str_int (daily_window spec) @ '' days'')
      (v3 vb (''Sorted '' @ str_nat (length ?s) @ '' snapshots.'') w)))) \<rparr>"
  have "plan_within (full_name ` set ?s) ?st0 (plan_phase vb now snaps spec w)"
    unfolding plan_phase_def Let_def
    by (intro plan_within_and_then daily_pass_within weekly_pass_within monthly_pass_within
        yearly_pass_within)
  then show ?thesis by (simp add: plan_within_def)
qed

subsection \<open>The execution part\<close>

lemma op_events_simps:
  "op_events dry (OpRename old new) =
     (if dry then [Print (''[DRY] RENAME '' @ old @ '' '' @ arrow @ '' '' @ new)]
      else [Print (''RENAME '' @ old @ '' '' @ arrow @ '' '' @ new),
            Run [''zfs'', ''rename'', old, new]])"
  "op_events dry (OpDestroy full) =
     (if dry then [Print (''[DRY] DELETE '' @ full)]
      else [Print (''DELETE '' @ full), Run [''zfs'', ''destroy'', full]])"
  by (simp_all add: op_events_def zfs_rename_def zfs_destroy_def check_call_def)

lemma actions_op_events: "actions (concat (map (op_events dry) ops)) = concat (map (op_events dry) ops)"
proof (induction ops)
  case Nil
  show ?case by simp
next
  case (Cons op ops)
  then show ?case by (cases op) (simp_all add: op_events_simps)
qed


lemma run_ops_result:
  assumes "run_ops ok dry ops w = (e, w')"
  shows "\<exists>k. k \<le> length ops \<and> w' = w @ concat (map (op_events dry) (take k ops)) \<and>
             (e = None \<longrightarrow> k = length ops)"
  using run_ops_trace [of ops ok dry w] unfolding assms fst_conv snd_conv .

lemma exec_phase_fields:
  "keep (snd (exec_phase set_iter ok vb dry st)) = keep st \<and>
   deletes (snd (exec_phase set_iter ok vb dry st)) = deletes st \<and>
   renames (snd (exec_phase set_iter ok vb dry st)) = renames st"
  by (simp add: exec_phase_def split: prod.splits option.splits)

lemma exec_phase_trace:
  "\<exists>k. k \<le> length (planned_ops set_iter st) \<and>
       actions (out (snd (exec_phase set_iter ok vb dry st))) =
         actions (out st) @ concat (map (op_events dry) (take k (planned_ops set_iter st))) \<and>
       (fst (exec_phase set_iter ok vb dry st) = None \<longrightarrow> k = length (planned_ops set_iter st))"
proof -
  let ?rops = "map (\<lambda>(old, new). OpRename old new)
       (filter (\<lambda>(old, new). old \<noteq> new \<and> old \<notin> set (deletes st)) (renames st))"
  let ?dops = "map OpDestroy (filter (\<lambda>full. full \<notin> keep st) (set_iter (deletes st)))"
  let ?w0 = "v1 vb (''Executing promotions'' @ ellipsis) (out st)"
  have po: "planned_ops set_iter st = ?rops @ ?dops" by (simp add: planned_ops_def)
  obtain e1 w1 where r1: "run_ops ok dry ?rops ?w0 = (e1, w1)" by (cases "run_ops ok dry ?rops ?w0")
  from run_ops_result [OF r1] obtain k1 where k1: "k1 \<le> length ?rops"
    "w1 = ?w0 @ concat (map (op_events dry) (take k1 ?rops))"
    "e1 = None \<longrightarrow> k1 = length ?rops"
    by (elim exE conjE) (rule that, assumption+)
  show ?thesis
  proof (cases e1)
    case (Some err)
    have E: "exec_phase set_iter ok vb dry st = (Some err, st\<lparr> out := w1 \<rparr>)"
      using r1 Some by (simp add: exec_phase_def exec_renames_run_ops)
    have a: "k1 \<le> length (planned_ops set_iter st)" using k1(1) po by simp
    have b: "actions (out (snd (exec_phase set_iter ok vb dry st))) =
         actions (out st) @ concat (map (op_events dry) (take k1 (planned_ops set_iter st)))"
      using k1(1) by (simp add: E k1(2) po actions_op_events del: map_map)
    have c: "fst (exec_phase set_iter ok vb dry st) = None \<longrightarrow> k1 = length (planned_ops set_iter st)"
      by (simp add: E)
    show ?thesis by (rule exI [of _ k1]) (intro conjI a b c)
  next
    case None
    let ?w1' = "v1 vb (''Executing deletions'' @ ellipsis) w1"
    obtain e2 w2 where r2: "run_ops ok dry ?dops ?w1' = (e2, w2)"
      by (cases "run_ops ok dry ?dops ?w1'")
    from run_ops_result [OF r2] obtain k2 where k2: "k2 \<le> length ?dops"
      "w2 = ?w1' @ concat (map (op_events dry) (take k2 ?dops))"
      "e2 = None \<longrightarrow> k2 = length ?dops"
      by (elim exE conjE) (rule that, assumption+)
    have k1': "k1 = length ?rops" using k1(3) None by simp
    have E: "fst (exec_phase set_iter ok vb dry st) = e2 \<and>
         actions (out (snd (exec_phase set_iter ok vb dry st))) = actions w2"
      using r1 r2 None
      by (cases e2) (simp_all add: exec_phase_def exec_renames_run_ops exec_deletes_run_ops)
    let ?k = "length ?rops + k2"
    have a: "?k \<le> length (planned_ops set_iter st)" using k2(1) po by simp
    have b: "actions (out (snd (exec_phase set_iter ok vb dry st))) =
         actions (out st) @ concat (map (op_events dry) (take ?k (planned_ops set_iter st)))"
      using k1(2) k1' by (simp add: E k2(2) po actions_op_events del: map_map)
    have c: "fst (exec_phase set_iter ok vb dry st) = None \<longrightarrow> ?k = length (planned_ops set_iter st)"
      using k2(3) by (simp add: E po)
    show ?thesis by (rule exI [of _ ?k]) (intro conjI a b c)
  qed
qed


subsection \<open>The whole run\<close>

lemma tiered_retention_empty:
  "tiered_retention set_iter ok vb now [] spec dry w =
     (None, \<lparr> keep = {}, deletes = [], renames = [],
              out = v2 vb ''No snapshots to retain/prune.'' w \<rparr>)"
  by (simp add: tiered_retention_def)

lemma tiered_retention_exec:
  assumes "snaps \<noteq> []"
  shows "tiered_retention set_iter ok vb now snaps spec dry w =
     exec_phase set_iter ok vb dry (snd (plan_phase vb now snaps spec w))"
proof -
  obtain st where p: "plan_phase vb now snaps spec w = (None, st)"
    using plan_phase_within [of vb now snaps spec w]
    by (cases "plan_phase vb now snaps spec w") auto
  show ?thesis using assms by (simp add: tiered_retention_def and_then_def p)
qed

lemma planned_ops_cong:
  "keep st = keep st' \<Longrightarrow> deletes st = deletes st' \<Longrightarrow> renames st = renames st' \<Longrightarrow>
   planned_ops set_iter st = planned_ops set_iter st'"
  by (simp add: planned_ops_def)


lemma tiered_retention_names:
  "set (deletes (snd (tiered_retention set_iter ok vb now snaps spec dry w))) \<subseteq> full_name ` set snaps \<and>
   fst ` set (renames (snd (tiered_retention set_iter ok vb now snaps spec dry w))) \<subseteq>
     full_name ` set snaps"
proof (cases "snaps = []")
  case True
  then show ?thesis by (simp add: tiered_retention_empty)
next
  case False
  then show ?thesis
    using plan_phase_within [of vb now snaps spec w]
    by (simp add: tiered_retention_exec exec_phase_fields)
qed

lemma tiered_retention_trace:
  assumes "\<And>xs. set (set_iter xs) = set xs"
  shows
  "\<exists>k. k \<le> length (planned_ops set_iter (snd (tiered_retention set_iter ok vb now snaps spec dry w))) \<and>
     actions (out (snd (tiered_retention set_iter ok vb now snaps spec dry w))) =
       actions w @ concat (map (op_events dry)
         (take k (planned_ops set_iter (snd (tiered_retention set_iter ok vb now snaps spec dry w))))) \<and>
     (fst (tiered_retention set_iter ok vb now snaps spec dry w) = None \<longrightarrow>
        k = length (planned_ops set_iter (snd (tiered_retention set_iter ok vb now snaps spec dry w))))"
proof (cases "snaps = []")
  case False
  let ?T = "tiered_retention set_iter ok vb now snaps spec dry w"
  let ?P = "snd (plan_phase vb now snaps spec w)"
  have run: "?T = exec_phase set_iter ok vb dry ?P" by (rule tiered_retention_exec [OF False])
  have po: "planned_ops set_iter (snd ?T) = planned_ops set_iter ?P"
    by (rule planned_ops_cong) (simp_all add: run exec_phase_fields)
  have aw: "actions (out ?P) = actions w"
    using plan_phase_within [of vb now snaps spec w] by simp
  show ?thesis
    unfolding po using exec_phase_trace [of set_iter ?P ok vb dry]
    unfolding run [symmetric] aw .
next
  case True
  let ?T = "tiered_retention set_iter ok vb now snaps spec dry w"
  have e: "?T = (None, \<lparr> keep = {}, deletes = [], renames = [],
              out = v2 vb ''No snapshots to retain/prune.'' w \<rparr>)"
    by (simp add: True tiered_retention_empty)
  have "set (set_iter []) = set ([] :: string list)" by (rule assms)
  then have "set_iter [] = []" by simp
  then have po: "planned_ops set_iter (snd ?T) = []" by (simp add: e planned_ops_def)
  have a: "(0::nat) \<le> length (planned_ops set_iter (snd ?T))" by simp
  have b: "actions (out (snd ?T)) =
     actions w @ concat (map (op_events dry) (take 0 (planned_ops set_iter (snd ?T))))"
    by (simp add: e)
  have c: "fst ?T = None \<longrightarrow> 0 = length (planned_ops set_iter (snd ?T))"
    by (simp add: po)
  show ?thesis by (rule exI [of _ 0]) (intro conjI a b c)
qed


section \<open>Every snapshot is handled by the pass of its zone\<close>

lemma handles_refl: "handles {} st (None, st)"
  by (simp add: handles_def)

lemma handles_step:
  assumes "handles A st (None, st1)" "handles B st1 r"
  shows "handles (A \<union> B) st r"
proof -
  define k0 where "k0 = keep st"
  define k1 where "k1 = keep st1"
  define k2 where "k2 = keep (snd r)"
  define d0 where "d0 = set (deletes st)"
  define d1 where "d1 = set (deletes st1)"
  define d2 where "d2 = set (deletes (snd r))"
  define r0 where "r0 = set (renames st)"
  define r1 where "r1 = set (renames st1)"
  define r2 where "r2 = set (renames (snd r))"
  note defs = k0_def k1_def k2_def d0_def d1_def d2_def r0_def r1_def r2_def
  from assms(1) have a: "k0 \<subseteq> k1" "d0 \<subseteq> d1" "r0 \<subseteq> r1" "A \<subseteq> k1 \<union> d1" "d1 \<subseteq> d0 \<union> A"
    "fst ` r1 \<subseteq> fst ` r0 \<union> A" "k1 \<subseteq> k0 \<union> A \<union> snd ` r1"
    by (simp_all add: handles_def defs)
  from assms(2) have b: "fst r = None" "k1 \<subseteq> k2" "d1 \<subseteq> d2" "r1 \<subseteq> r2" "B \<subseteq> k2 \<union> d2" "d2 \<subseteq> d1 \<union> B"
    "fst ` r2 \<subseteq> fst ` r1 \<union> B" "k2 \<subseteq> k1 \<union> B \<union> snd ` r2"
    by (simp_all add: handles_def defs)
  have 1: "k0 \<subseteq> k2" using a(1) b(2) by blast
  have 2: "d0 \<subseteq> d2" using a(2) b(3) by blast
  have 3: "r0 \<subseteq> r2" using a(3) b(4) by blast
  have 4: "A \<union> B \<subseteq> k2 \<union> d2" using a(4) b(2,3,5) by blast
  have 5: "d2 \<subseteq> d0 \<union> (A \<union> B)" using a(5) b(6) by blast
  have 6: "fst ` r2 \<subseteq> fst ` r0 \<union> (A \<union> B)" using a(6) b(7) by blast
  have "snd ` r1 \<subseteq> snd ` r2" using b(4) by blast
  then have 7: "k2 \<subseteq> k0 \<union> (A \<union> B) \<union> snd ` r2" using a(7) b(8) by blast
  show ?thesis
    unfolding handles_def defs [symmetric]
    by (intro conjI b(1) 1 2 3 4 5 6 7)
qed

lemma handles_and_then:
  assumes "handles A st r" "\<And>st'. handles B st' (f st')"
  shows "handles (A \<union> B) st (and_then r f)"
proof -
  obtain st1 where r: "r = (None, st1)" using assms(1) by (cases r) (simp add: handles_def)
  have 1: "handles A st (None, st1)" using assms(1) r by simp
  have 2: "handles B st1 (f st1)" by (rule assms(2))
  have "handles (A \<union> B) st (f st1)" by (rule handles_step [OF 1 2])
  then show ?thesis by (simp add: r and_then_def)
qed

lemma handles_out:
  assumes "handles names (st\<lparr> out := w' \<rparr>) r"
  shows "handles names st r"
  using assms by (simp add: handles_def)

lemma process_bucket_handles:
  assumes "grp \<noteq> []"
  shows "handles (full_name ` set grp) st (process_bucket vb label target key grp st)"
proof -
  obtain b where b: "pick_best grp = Inr b" "b \<in> set grp"
    using pick_best_max [OF assms] by blast
  let ?fb = "full_name b"
  let ?F = "\<lambda>st2. foldl (\<lambda>a s. if full_name s \<noteq> ?fb
                        then a\<lparr> deletes := set_add (full_name s) (deletes a) \<rparr> else a) st2 grp"
  have fb: "?fb \<in> full_name ` set grp" using b(2) by blast
  have names: "full_name ` set grp \<subseteq> insert ?fb K \<union> (D \<union> {n \<in> full_name ` set grp. n \<noteq> ?fb})" for K D
    by blast
  show ?thesis
  proof (cases "tier b \<noteq> target")
    case False
    then have e: "process_bucket vb label target key grp st =
        (None, ?F (st\<lparr> out := v2 vb (label @ '' '' @ key @ '': '' @ str_nat (length grp) @
                                      '' snaps '' @ arrow @ '' keeping '' @ ?fb) (out st),
                        keep := insert ?fb (keep st) \<rparr>))"
      by (simp add: process_bucket_def b(1) Let_def)
    show ?thesis
      unfolding e handles_def fst_conv snd_conv
      using fb by (simp add: delete_rest) blast
  next
    case True
    let ?new = "py_replace ?fb (''_'' @ tier b) (''_'' @ target)"
    from True have e: "process_bucket vb label target key grp st =
        (None, ?F (st\<lparr> out := v1 vb (''Promote '' @ ?fb @ '' '' @ arrow @ '' '' @ ?new)
                     (v2 vb (label @ '' '' @ key @ '': '' @ str_nat (length grp) @
                                      '' snaps '' @ arrow @ '' keeping '' @ ?fb) (out st)),
                        renames := renames st @ [(?fb, ?new)],
                        keep := insert ?new (insert ?fb (keep st)) \<rparr>))"
      by (simp add: process_bucket_def b(1) Let_def)
    show ?thesis
      unfolding e handles_def fst_conv snd_conv
      using fb by (simp add: delete_rest) blast
  qed
qed

lemma process_buckets_handles:
  assumes "\<And>k g. (k, g) \<in> set bs \<Longrightarrow> g \<noteq> []"
  shows "handles (full_name ` (\<Union>(k, g) \<in> set bs. set g)) st (process_buckets vb label target bs st)"
  using assms
proof (induction bs arbitrary: st)
  case Nil
  show ?case by (simp add: handles_refl)
next
  case (Cons kg bs)
  obtain k g where kg: "kg = (k, g)" by (cases kg)
  have g: "g \<noteq> []" using Cons.prems [of k g] kg by auto
  have 1: "handles (full_name ` set g) st (process_bucket vb label target k g st)"
    by (rule process_bucket_handles [OF g])
  have 2: "handles (full_name ` (\<Union>(k, g) \<in> set bs. set g)) st'
             (process_buckets vb label target bs st')" for st'
    using Cons.prems by (intro Cons.IH) auto
  have e: "process_buckets vb label target (kg # bs) st =
        and_then (process_bucket vb label target k g st) (process_buckets vb label target bs)"
    by (simp add: kg and_then_def split: prod.splits option.splits)
  have s: "full_name ` (\<Union>(k, g) \<in> set (kg # bs). set g) =
           full_name ` set g \<union> full_name ` (\<Union>(k, g) \<in> set bs. set g)"
    by (simp add: kg image_Un)
  show ?case unfolding e s by (rule handles_and_then [OF 1 2])
qed

lemma group_by_union: "(\<Union>(k, g) \<in> set (group_by f xs). set g) = set xs"
proof (intro set_eqI iffI)
  fix x assume "x \<in> (\<Union>(k, g) \<in> set (group_by f xs). set g)"
  then obtain k g where "(k, g) \<in> set (group_by f xs)" "x \<in> set g" by auto
  then show "x \<in> set xs" using group_by_nonempty(2) [of k g f xs] by blast
next
  fix x assume x: "x \<in> set xs"
  have "(f x, filter (\<lambda>y. f y = f x) xs) \<in> set (group_by f xs)"
    using x by (simp add: group_by_member)
  moreover have "x \<in> set (filter (\<lambda>y. f y = f x) xs)" using x by simp
  ultimately show "x \<in> (\<Union>(k, g) \<in> set (group_by f xs). set g)" by blast
qed

lemma keyed_union:
  "(\<Union>(k, g) \<in> set (map (\<lambda>(k, g). (str k, g)) (group_by f xs)). set g) = set xs"
proof -
  have "(\<Union>(k, g) \<in> set (map (\<lambda>(k, g). (str k, g)) (group_by f xs)). set g) =
        (\<Union>(k, g) \<in> set (group_by f xs). set g)"
    by (auto simp: case_prod_unfold)
  then show ?thesis by (simp only: group_by_union)
qed

lemma buckets_pass_handles:
  "handles (full_name ` set (filter P snaps)) st
     (process_buckets vb label target
        (map (\<lambda>(k, g). (str k, g)) (group_by f (filter P snaps))) (st\<lparr> out := w' \<rparr>))"
proof -
  have ne: "g \<noteq> []" if "(k, g) \<in> set (map (\<lambda>(k, g). (str k, g)) (group_by f (filter P snaps)))" for k g
    using keyed_groups [OF that] by simp
  have "handles (full_name ` (\<Union>(k, g) \<in> set (map (\<lambda>(k, g). (str k, g)) (group_by f (filter P snaps))). set g))
          (st\<lparr> out := w' \<rparr>)
          (process_buckets vb label target
             (map (\<lambda>(k, g). (str k, g)) (group_by f (filter P snaps))) (st\<lparr> out := w' \<rparr>))"
    by (rule process_buckets_handles) (rule ne)
  then show ?thesis unfolding keyed_union by (rule handles_out)
qed

lemma daily_pass_handles:
  "handles (full_name ` set (daily_zone spec now snaps)) st (daily_pass vb spec now snaps st)"
  unfolding daily_pass_def Let_def daily_zone_def group_by_day_def
  by (rule buckets_pass_handles)

lemma weekly_pass_handles:
  "handles (full_name ` set (weekly_zone spec now snaps)) st (weekly_pass vb spec now snaps st)"
  unfolding weekly_pass_def Let_def weekly_zone_def group_by_week_def
  by (rule buckets_pass_handles)

lemma monthly_pass_handles:
  "handles (full_name ` set (monthly_zone spec now snaps)) st (monthly_pass vb spec now snaps st)"
  unfolding monthly_pass_def Let_def monthly_zone_def group_by_month_def
  by (rule buckets_pass_handles)

lemma yearly_pass_handles:
  "handles (full_name ` set (yearly_zone spec now snaps)) st (yearly_pass vb spec now snaps st)"
  unfolding yearly_pass_def Let_def yearly_zone_def group_by_year_def
  by (rule buckets_pass_handles)

lemma zones_cover:
  "set (daily_zone spec now snaps) \<union> set (weekly_zone spec now snaps) \<union>
   set (monthly_zone spec now snaps) \<union> set (yearly_zone spec now snaps) = set snaps"
  unfolding daily_zone_def weekly_zone_def monthly_zone_def yearly_zone_def
    in_daily_def in_weekly_def in_monthly_def in_yearly_def
  by auto

lemma plan_phase_handles:
  "\<forall>s \<in> set snaps. full_name s \<in> keep (snd (plan_phase vb now snaps spec w)) \<union>
                                   set (deletes (snd (plan_phase vb now snaps spec w)))"
proof -
  let ?s = "sort_key (\<lambda>s. dt_key (timestamp s)) snaps"
  let ?st0 = "\<lparr> keep = {}, deletes = [], renames = [],
     out = v3 vb (''Yearly window:  '' @ str_int (monthly_window spec + 1) @ ''+ days'')
      (v3 vb (''Monthly window: '' @ str_int (weekly_window spec + 1) @ endash @
                      str_int (monthly_window spec) @ '' days'')
      (v3 vb (''Weekly window:  '' @ str_int (daily_window spec + 1) @ endash @
                      str_int (weekly_window spec) @ '' days'')
      (v3 vb (''Daily window:   0'' @ endash @ str_int (daily_window spec) @ '' days'')
      (v3 vb (''Sorted '' @ str_nat (length ?s) @ '' snapshots.'') w)))) \<rparr>"
  have "handles (full_name ` set (daily_zone spec now ?s) \<union> full_name ` set (weekly_zone spec now ?s) \<union>
                 full_name ` set (monthly_zone spec now ?s) \<union> full_name ` set (yearly_zone spec now ?s))
          ?st0 (plan_phase vb now snaps spec w)"
    unfolding plan_phase_def Let_def
    by (intro handles_and_then daily_pass_handles weekly_pass_handles monthly_pass_handles
        yearly_pass_handles)
  moreover have "full_name ` set (daily_zone spec now ?s) \<union> full_name ` set (weekly_zone spec now ?s) \<union>
                 full_name ` set (monthly_zone spec now ?s) \<union> full_name ` set (yearly_zone spec now ?s) =
                 full_name ` set snaps"
    unfolding image_Un [symmetric] zones_cover by simp
  ultimately have "handles (full_name ` set snaps) ?st0 (plan_phase vb now snaps spec w)" by simp
  then show ?thesis unfolding handles_def by blast
qed

lemma tiered_retention_handles:
  "\<forall>s \<in> set snaps. full_name s \<in> keep (snd (tiered_retention set_iter ok vb now snaps spec dry w)) \<union>
                        set (deletes (snd (tiered_retention set_iter ok vb now snaps spec dry w)))"
proof (cases "snaps = []")
  case True
  then show ?thesis by simp
next
  case False
  show ?thesis
    using plan_phase_handles [of snaps vb now spec w]
    by (simp add: tiered_retention_exec [OF False] exec_phase_fields)
qed

lemma mset_setdefault_append:
  "mset (concat (map snd (setdefault_append k v b))) = mset (concat (map snd b)) + {#v#}"
  by (induction b) auto

lemma mset_group_by: "mset (concat (map snd (group_by f xs))) = mset xs"
proof (induction xs rule: rev_induct)
  case Nil
  show ?case by (simp add: group_by_def)
next
  case (snoc x xs)
  then show ?case by (simp add: group_by_snoc mset_setdefault_append)
qed

lemma pass_unfold:
  "handles names st r \<Longrightarrow>
     fst r = None \<and> keep st \<subseteq> keep (snd r) \<and> set (deletes st) \<subseteq> set (deletes (snd r)) \<and>
     names \<subseteq> keep (snd r) \<union> set (deletes (snd r)) \<and>
     set (deletes (snd r)) \<subseteq> set (deletes st) \<union> names \<and>
     fst ` set (renames (snd r)) \<subseteq> fst ` set (renames st) \<union> names \<and>
     keep (snd r) \<subseteq> keep st \<union> names \<union> snd ` set (renames (snd r))"
  by (simp add: handles_def)

text \<open>
  Claim C4. Whenever the weekly and the monthly count are not negative, exactly one of the four
  zone conditions holds of an age: at least one does, and no two do together. This needs
  neither the sign of the age nor the other two counts. The four zone lists therefore split
  the snapshot list, and so do the buckets the four loops go through: every snapshot, counted
  with its multiplicity, is in exactly one bucket of exactly one pass. Each of the four passes,
  from whatever state it starts, raises nothing, takes nothing back, decides every snapshot
  of its own zone (its name ends in \<open>keep\<close> or in \<open>deletes\<close>), and marks for deletion or
  promotion no name but those of its own zone; what it adds to \<open>keep\<close> are names of its
  zone and destinations of promotions. In a run of \<open>tiered_retention\<close> every snapshot of
  the list is decided.
\<close>

theorem zones_partition:
  assumes "0 \<le> weekly spec" "0 \<le> monthly spec"
  shows "(in_daily spec age \<or> in_weekly spec age \<or> in_monthly spec age \<or> in_yearly spec age) \<and>
         \<not> (in_daily spec age \<and> in_weekly spec age) \<and>
         \<not> (in_daily spec age \<and> in_monthly spec age) \<and>
         \<not> (in_daily spec age \<and> in_yearly spec age) \<and>
         \<not> (in_weekly spec age \<and> in_monthly spec age) \<and>
         \<not> (in_weekly spec age \<and> in_yearly spec age) \<and>
         \<not> (in_monthly spec age \<and> in_yearly spec age) \<and>
         mset (daily_zone spec now snaps) + mset (weekly_zone spec now snaps) +
         mset (monthly_zone spec now snaps) + mset (yearly_zone spec now snaps) = mset snaps \<and>
         mset (concat (map snd (group_by_day (daily_zone spec now snaps)))) +
         mset (concat (map snd (group_by_week (weekly_zone spec now snaps)))) +
         mset (concat (map snd (group_by_month (monthly_zone spec now snaps)))) +
         mset (concat (map snd (group_by_year (yearly_zone spec now snaps)))) = mset snaps \<and>
         (\<forall>(pass, zone) \<in> set [(daily_pass, daily_zone), (weekly_pass, weekly_zone),
                                (monthly_pass, monthly_zone), (yearly_pass, yearly_zone)].
            let r = pass vb spec now snaps st;
                names = full_name ` set (zone spec now snaps)
            in fst r = None \<and>
               keep st \<subseteq> keep (snd r) \<and> set (deletes st) \<subseteq> set (deletes (snd r)) \<and>
               names \<subseteq> keep (snd r) \<union> set (deletes (snd r)) \<and>
               set (deletes (snd r)) \<subseteq> set (deletes st) \<union> names \<and>
               fst ` set (renames (snd r)) \<subseteq> fst ` set (renames st) \<union> names \<and>
               keep (snd r) \<subseteq> keep st \<union> names \<union> snd ` set (renames (snd r))) \<and>
         (\<forall>s \<in> set snaps.
            full_name s \<in> keep (snd (tiered_retention set_iter ok vb now snaps spec dry w)) \<union>
                          set (deletes (snd (tiered_retention set_iter ok vb now snaps spec dry w))))"
proof -
  have g: "mset (concat (map snd (group_by_day (daily_zone spec now snaps)))) +
         mset (concat (map snd (group_by_week (weekly_zone spec now snaps)))) +
         mset (concat (map snd (group_by_month (monthly_zone spec now snaps)))) +
         mset (concat (map snd (group_by_year (yearly_zone spec now snaps)))) = mset snaps"
    unfolding group_by_day_def group_by_week_def group_by_month_def group_by_year_def mset_group_by
    by (rule zones_mset [OF assms])
  have p: "\<forall>(pass, zone) \<in> set [(daily_pass, daily_zone), (weekly_pass, weekly_zone),
                                (monthly_pass, monthly_zone), (yearly_pass, yearly_zone)].
            let r = pass vb spec now snaps st;
                names = full_name ` set (zone spec now snaps)
            in fst r = None \<and>
               keep st \<subseteq> keep (snd r) \<and> set (deletes st) \<subseteq> set (deletes (snd r)) \<and>
               names \<subseteq> keep (snd r) \<union> set (deletes (snd r)) \<and>
               set (deletes (snd r)) \<subseteq> set (deletes st) \<union> names \<and>
               fst ` set (renames (snd r)) \<subseteq> fst ` set (renames st) \<union> names \<and>
               keep (snd r) \<subseteq> keep st \<union> names \<union> snd ` set (renames (snd r))"
    unfolding Let_def list.set ball_simps case_prod_conv
    by (intro conjI TrueI pass_unfold daily_pass_handles weekly_pass_handles monthly_pass_handles
        yearly_pass_handles)
  show ?thesis
    by (intro conjI zone_exclusive [OF assms, of age, THEN conjunct1] g p
        zones_mset [OF assms] tiered_retention_handles)
      (use zone_exclusive [OF assms, of age] in blast)+
qed

theorem zones_partition_witness:
  "0 \<le> weekly spec0 \<and> 0 \<le> monthly spec0 \<and>
   in_weekly spec0 3 \<and> \<not> in_daily spec0 3 \<and> \<not> in_monthly spec0 3 \<and> \<not> in_yearly spec0 3 \<and>
   mset (daily_zone spec0 now0 example_snaps) + mset (weekly_zone spec0 now0 example_snaps) +
   mset (monthly_zone spec0 now0 example_snaps) + mset (yearly_zone spec0 now0 example_snaps) =
     mset example_snaps \<and>
   weekly_zone spec0 now0 example_snaps = [snap_wed, snap_thu] \<and>
   full_name ` set (weekly_zone spec0 now0 example_snaps) \<subseteq>
     keep (snd (weekly_pass 0 spec0 now0 example_snaps \<lparr> keep = {}, deletes = [], renames = [], out = [] \<rparr>)) \<union>
     set (deletes (snd (weekly_pass 0 spec0 now0 example_snaps
                          \<lparr> keep = {}, deletes = [], renames = [], out = [] \<rparr>))) \<and>
   deletes (snd (weekly_pass 0 spec0 now0 example_snaps \<lparr> keep = {}, deletes = [], renames = [], out = [] \<rparr>)) =
     [''tank@snappy-2024-03-07_00:00:00_daily''] \<and>
   renames (snd (weekly_pass 0 spec0 now0 example_snaps \<lparr> keep = {}, deletes = [], renames = [], out = [] \<rparr>)) =
     [(''tank@snappy-2024-03-06_00:00:00_monthly'', ''tank@snappy-2024-03-06_00:00:00_weekly'')] \<and>
   full_name snap_old \<in>
     keep (snd (tiered_retention rev (\<lambda>w c. True) 0 now0 example_snaps spec0 False [])) \<union>
     set (deletes (snd (tiered_retention rev (\<lambda>w c. True) 0 now0 example_snaps spec0 False [])))"
proof -
  have h: "0 \<le> weekly spec0" "0 \<le> monthly spec0" by (simp_all add: spec0_def)
  have w: "in_weekly spec0 3"
    by (simp add: spec0_def in_weekly_def daily_window_def weekly_window_def)
  note t = zones_partition [OF h, where age = 3 and now = now0 and snaps = example_snaps
      and vb = 0 and st = "\<lparr> keep = {}, deletes = [], renames = [], out = [] \<rparr>"
      and set_iter = rev and ok = "\<lambda>w c. True" and dry = False and w = "[]"]
  note t7 = t [THEN conjunct2, THEN conjunct2, THEN conjunct2, THEN conjunct2, THEN conjunct2,
      THEN conjunct2, THEN conjunct2]
  note p = t7 [THEN conjunct2, THEN conjunct2, THEN conjunct1,
      unfolded list.set ball_simps case_prod_conv Let_def]
  note r = t7 [THEN conjunct2, THEN conjunct2, THEN conjunct2]
  have z: "weekly_zone spec0 now0 example_snaps = [snap_wed, snap_thu]" by code_simp
  have d: "deletes (snd (weekly_pass 0 spec0 now0 example_snaps
              \<lparr> keep = {}, deletes = [], renames = [], out = [] \<rparr>)) =
     [''tank@snappy-2024-03-07_00:00:00_daily'']" by code_simp
  have n: "renames (snd (weekly_pass 0 spec0 now0 example_snaps
              \<lparr> keep = {}, deletes = [], renames = [], out = [] \<rparr>)) =
     [(''tank@snappy-2024-03-06_00:00:00_monthly'', ''tank@snappy-2024-03-06_00:00:00_weekly'')]"
    by code_simp
  have o: "snap_old \<in> set example_snaps" by (simp add: example_snaps_def)
  have x: "\<not> in_daily spec0 3 \<and> \<not> in_monthly spec0 3 \<and> \<not> in_yearly spec0 3"
    using w t by blast
  show ?thesis
    by (intro conjI h w x [THEN conjunct1] x [THEN conjunct2, THEN conjunct1]
        x [THEN conjunct2, THEN conjunct2] t7 [THEN conjunct1] z d n
        p [THEN conjunct2, THEN conjunct1, THEN conjunct2, THEN conjunct2, THEN conjunct2, THEN conjunct1]
        r [THEN bspec, OF o])
qed

section \<open>What a run does\<close>

lemma take_planned:
  "take k (map f rs @ map g ds) = map f (take k rs) @ map g (take (k - length rs) ds)"
  by (simp add: take_map)

lemma tiered_retention_structure:
  assumes "\<And>xs. set (set_iter xs) = set xs"
  shows "\<exists>rs ds.
     actions (out (snd (tiered_retention set_iter ok vb now snaps spec dry w))) =
       actions w @ concat (map (\<lambda>(old, new). op_events dry (OpRename old new)) rs) @
       concat (map (\<lambda>full. op_events dry (OpDestroy full)) ds) \<and>
     set rs \<subseteq> {(old, new). (old, new) \<in> set (renames (snd (tiered_retention set_iter ok vb now snaps spec dry w)))
                  \<and> old \<noteq> new
                  \<and> old \<notin> set (deletes (snd (tiered_retention set_iter ok vb now snaps spec dry w)))} \<and>
     set ds \<subseteq> set (deletes (snd (tiered_retention set_iter ok vb now snaps spec dry w)))
                - keep (snd (tiered_retention set_iter ok vb now snaps spec dry w))"
proof -
  let ?st = "snd (tiered_retention set_iter ok vb now snaps spec dry w)"
  let ?allrs = "filter (\<lambda>(old, new). old \<noteq> new \<and> old \<notin> set (deletes ?st)) (renames ?st)"
  let ?allds = "filter (\<lambda>full. full \<notin> keep ?st) (set_iter (deletes ?st))"
  from tiered_retention_trace [OF assms, of ok vb now snaps spec dry w]
  obtain k where k: "actions (out ?st) =
       actions w @ concat (map (op_events dry) (take k (planned_ops set_iter ?st)))"
    by (elim exE conjE) (rule that, assumption)
  let ?rs = "take k ?allrs"
  let ?ds = "take (k - length ?allrs) ?allds"
  have t: "take k (planned_ops set_iter ?st) =
      map (\<lambda>(old, new). OpRename old new) ?rs @ map OpDestroy ?ds"
    by (simp only: planned_ops_def take_planned)
  have a: "actions (out ?st) =
       actions w @ concat (map (\<lambda>(old, new). op_events dry (OpRename old new)) ?rs) @
       concat (map (\<lambda>full. op_events dry (OpDestroy full)) ?ds)"
    unfolding k t by (simp add: comp_def case_prod_unfold)
  have "set ?rs \<subseteq> set ?allrs" by (rule set_take_subset)
  then have b: "set ?rs \<subseteq> {(old, new). (old, new) \<in> set (renames ?st) \<and> old \<noteq> new
                  \<and> old \<notin> set (deletes ?st)}" by auto
  have "set ?ds \<subseteq> set ?allds" by (rule set_take_subset)
  then have c: "set ?ds \<subseteq> set (deletes ?st) - keep ?st" by (auto simp: assms)
  show ?thesis by (rule exI [of _ ?rs], rule exI [of _ ?ds]) (intro conjI a b c)
qed

lemma commands_of_ops:
  "Run [''zfs'', ''destroy'', full] \<in>
     set (concat (map (\<lambda>(old, new). op_events dry (OpRename old new)) rs) @
          concat (map (\<lambda>full. op_events dry (OpDestroy full)) ds)) \<Longrightarrow> full \<in> set ds"
  "Run [''zfs'', ''rename'', old, new] \<in>
     set (concat (map (\<lambda>(old, new). op_events dry (OpRename old new)) rs) @
          concat (map (\<lambda>full. op_events dry (OpDestroy full)) ds)) \<Longrightarrow> (old, new) \<in> set rs"
  by (auto simp: op_events_simps split: if_splits)

text \<open>
  Claim C1. Whatever the run, what it did, its verbosity lines left out, is what a
  sequence of calls of \<open>zfs_rename\<close> followed by a sequence of calls of \<open>zfs_destroy\<close>
  leaves: every rename comes before every delete. Each pair renamed is in \<open>renames\<close>, its
  two names differ and its source is not in \<open>deletes\<close>; each name destroyed is in \<open>deletes\<close>
  and not in \<open>keep\<close>. (A run that a failing command stops has done a part of the
  sequence; the statement holds of the part.) In particular, among the actions the run adds
  to the world, every \<open>zfs destroy\<close> command names a member of \<open>deletes\<close> that is not in
  \<open>keep\<close>, and every \<open>zfs rename\<close> command has a source that differs from its
  destination and is not in \<open>deletes\<close>.
\<close>

theorem renames_then_guarded_deletes:
  assumes "\<And>xs. set (set_iter xs) = set xs"
  shows "(\<exists>rs ds.
     actions (out (snd (tiered_retention set_iter ok vb now snaps spec dry w))) =
       actions w @ concat (map (\<lambda>(old, new). op_events dry (OpRename old new)) rs) @
       concat (map (\<lambda>full. op_events dry (OpDestroy full)) ds) \<and>
     (\<forall>(old, new) \<in> set rs.
        (old, new) \<in> set (renames (snd (tiered_retention set_iter ok vb now snaps spec dry w))) \<and>
        old \<noteq> new \<and>
        old \<notin> set (deletes (snd (tiered_retention set_iter ok vb now snaps spec dry w)))) \<and>
     (\<forall>full \<in> set ds.
        full \<in> set (deletes (snd (tiered_retention set_iter ok vb now snaps spec dry w))) \<and>
        full \<notin> keep (snd (tiered_retention set_iter ok vb now snaps spec dry w)))) \<and>
   (\<forall>full. Run [''zfs'', ''destroy'', full] \<in>
        set (drop (length (actions w))
              (actions (out (snd (tiered_retention set_iter ok vb now snaps spec dry w))))) \<longrightarrow>
      full \<in> set (deletes (snd (tiered_retention set_iter ok vb now snaps spec dry w))) \<and>
      full \<notin> keep (snd (tiered_retention set_iter ok vb now snaps spec dry w))) \<and>
   (\<forall>old new. Run [''zfs'', ''rename'', old, new] \<in>
        set (drop (length (actions w))
              (actions (out (snd (tiered_retention set_iter ok vb now snaps spec dry w))))) \<longrightarrow>
      old \<noteq> new \<and>
      old \<notin> set (deletes (snd (tiered_retention set_iter ok vb now snaps spec dry w))))"
proof -
  let ?st = "snd (tiered_retention set_iter ok vb now snaps spec dry w)"
  from tiered_retention_structure [OF assms, of ok vb now snaps spec dry w]
  obtain rs ds where s:
    "actions (out ?st) =
       actions w @ concat (map (\<lambda>(old, new). op_events dry (OpRename old new)) rs) @
       concat (map (\<lambda>full. op_events dry (OpDestroy full)) ds)"
    "set rs \<subseteq> {(old, new). (old, new) \<in> set (renames ?st) \<and> old \<noteq> new \<and> old \<notin> set (deletes ?st)}"
    "set ds \<subseteq> set (deletes ?st) - keep ?st"
    by (elim exE conjE) (rule that, assumption+)
  have b: "\<forall>(old, new) \<in> set rs.
        (old, new) \<in> set (renames ?st) \<and> old \<noteq> new \<and> old \<notin> set (deletes ?st)"
    using s(2) by auto
  have c: "\<forall>full \<in> set ds. full \<in> set (deletes ?st) \<and> full \<notin> keep ?st"
    using s(3) by auto
  have 1: "\<exists>rs ds.
     actions (out ?st) =
       actions w @ concat (map (\<lambda>(old, new). op_events dry (OpRename old new)) rs) @
       concat (map (\<lambda>full. op_events dry (OpDestroy full)) ds) \<and>
     (\<forall>(old, new) \<in> set rs.
        (old, new) \<in> set (renames ?st) \<and> old \<noteq> new \<and> old \<notin> set (deletes ?st)) \<and>
     (\<forall>full \<in> set ds. full \<in> set (deletes ?st) \<and> full \<notin> keep ?st)"
    by (rule exI [of _ rs], rule exI [of _ ds]) (intro conjI s(1) b c)
  have d: "drop (length (actions w)) (actions (out ?st)) =
       concat (map (\<lambda>(old, new). op_events dry (OpRename old new)) rs) @
       concat (map (\<lambda>full. op_events dry (OpDestroy full)) ds)"
    unfolding s(1) by simp
  have 2: "\<forall>full. Run [''zfs'', ''destroy'', full] \<in>
        set (drop (length (actions w)) (actions (out ?st))) \<longrightarrow>
      full \<in> set (deletes ?st) \<and> full \<notin> keep ?st"
    unfolding d using commands_of_ops(1) [of _ dry rs ds] c by blast
  have 3: "\<forall>old new. Run [''zfs'', ''rename'', old, new] \<in>
        set (drop (length (actions w)) (actions (out ?st))) \<longrightarrow>
      old \<noteq> new \<and> old \<notin> set (deletes ?st)"
    unfolding d using commands_of_ops(2) [of _ _ dry rs ds] b by blast
  show ?thesis by (intro conjI 1 2 3)
qed

theorem renames_then_guarded_deletes_witness:
  "(\<forall>xs. set (rev xs) = set (xs :: string list)) \<and>
   (\<exists>rs ds.
     actions (out (snd (tiered_retention rev (\<lambda>w c. True) 0 now0 example_snaps spec0 False []))) =
       actions [] @ concat (map (\<lambda>(old, new). op_events False (OpRename old new)) rs) @
       concat (map (\<lambda>full. op_events False (OpDestroy full)) ds) \<and>
     (\<forall>(old, new) \<in> set rs.
        (old, new) \<in> set (renames (snd (tiered_retention rev (\<lambda>w c. True) 0 now0 example_snaps spec0 False []))) \<and>
        old \<noteq> new \<and>
        old \<notin> set (deletes (snd (tiered_retention rev (\<lambda>w c. True) 0 now0 example_snaps spec0 False [])))) \<and>
     (\<forall>full \<in> set ds.
        full \<in> set (deletes (snd (tiered_retention rev (\<lambda>w c. True) 0 now0 example_snaps spec0 False []))) \<and>
        full \<notin> keep (snd (tiered_retention rev (\<lambda>w c. True) 0 now0 example_snaps spec0 False [])))) \<and>
   map (\<lambda>e. case e of Run c \<Rightarrow> c | _ \<Rightarrow> [])
     (out (snd (tiered_retention rev (\<lambda>w c. True) 0 now0 example_snaps spec0 False []))) =
     [[], [''zfs'', ''rename'', ''tank@snappy-2024-03-06_00:00:00_monthly'',
           ''tank@snappy-2024-03-06_00:00:00_weekly''],
      [], [''zfs'', ''rename'', ''tank@snappy-2024-02-01_00:00:00_daily'',
           ''tank@snappy-2024-02-01_00:00:00_yearly''],
      [], [''zfs'', ''destroy'', ''tank@snappy-2024-03-07_00:00:00_daily'']]"
proof -
  have h: "set (rev xs) = set xs" for xs :: "string list" by simp
  have e: "map (\<lambda>e. case e of Run c \<Rightarrow> c | _ \<Rightarrow> [])
     (out (snd (tiered_retention rev (\<lambda>w c. True) 0 now0 example_snaps spec0 False []))) =
     [[], [''zfs'', ''rename'', ''tank@snappy-2024-03-06_00:00:00_monthly'',
           ''tank@snappy-2024-03-06_00:00:00_weekly''],
      [], [''zfs'', ''rename'', ''tank@snappy-2024-02-01_00:00:00_daily'',
           ''tank@snappy-2024-02-01_00:00:00_yearly''],
      [], [''zfs'', ''destroy'', ''tank@snappy-2024-03-07_00:00:00_daily'']]"
    by code_simp
  show ?thesis
    by (intro conjI allI h e
        renames_then_guarded_deletes [of rev "\<lambda>w c. True" 0 now0 example_snaps spec0 False "[]", OF h,
          THEN conjunct1])
qed

text \<open>
  Claim C9. The source of every rename the run performs and every name it destroys is the
  \<open>full_name\<close> of a snapshot of the list it was given; so is the name in every
  \<open>zfs destroy\<close> command and the source in every \<open>zfs rename\<close> command among the actions
  the run adds to the world.
\<close>

theorem only_listed_names_touched:
  assumes "\<And>xs. set (set_iter xs) = set xs"
  shows "(\<exists>rs ds.
     actions (out (snd (tiered_retention set_iter ok vb now snaps spec dry w))) =
       actions w @ concat (map (\<lambda>(old, new). op_events dry (OpRename old new)) rs) @
       concat (map (\<lambda>full. op_events dry (OpDestroy full)) ds) \<and>
     (\<forall>(old, new) \<in> set rs. old \<in> full_name ` set snaps) \<and>
     (\<forall>full \<in> set ds. full \<in> full_name ` set snaps)) \<and>
   (\<forall>full. Run [''zfs'', ''destroy'', full] \<in>
        set (drop (length (actions w))
              (actions (out (snd (tiered_retention set_iter ok vb now snaps spec dry w))))) \<longrightarrow>
      full \<in> full_name ` set snaps) \<and>
   (\<forall>old new. Run [''zfs'', ''rename'', old, new] \<in>
        set (drop (length (actions w))
              (actions (out (snd (tiered_retention set_iter ok vb now snaps spec dry w))))) \<longrightarrow>
      old \<in> full_name ` set snaps)"
proof -
  let ?st = "snd (tiered_retention set_iter ok vb now snaps spec dry w)"
  from tiered_retention_structure [OF assms, of ok vb now snaps spec dry w]
  obtain rs ds where s:
    "actions (out ?st) =
       actions w @ concat (map (\<lambda>(old, new). op_events dry (OpRename old new)) rs) @
       concat (map (\<lambda>full. op_events dry (OpDestroy full)) ds)"
    "set rs \<subseteq> {(old, new). (old, new) \<in> set (renames ?st) \<and> old \<noteq> new \<and> old \<notin> set (deletes ?st)}"
    "set ds \<subseteq> set (deletes ?st) - keep ?st"
    by (elim exE conjE) (rule that, assumption+)
  note n = tiered_retention_names [of set_iter ok vb now snaps spec dry w]
  have b: "\<forall>(old, new) \<in> set rs. old \<in> full_name ` set snaps"
  proof (intro ballI, clarify)
    fix old new assume "(old, new) \<in> set rs"
    then have "(old, new) \<in> set (renames ?st)" using s(2) by auto
    then have "old \<in> fst ` set (renames ?st)" by force
    then show "old \<in> full_name ` set snaps" using n by blast
  qed
  have c: "\<forall>full \<in> set ds. full \<in> full_name ` set snaps"
    using s(3) n by blast
  have 1: "\<exists>rs ds.
     actions (out ?st) =
       actions w @ concat (map (\<lambda>(old, new). op_events dry (OpRename old new)) rs) @
       concat (map (\<lambda>full. op_events dry (OpDestroy full)) ds) \<and>
     (\<forall>(old, new) \<in> set rs. old \<in> full_name ` set snaps) \<and>
     (\<forall>full \<in> set ds. full \<in> full_name ` set snaps)"
    by (rule exI [of _ rs], rule exI [of _ ds]) (intro conjI s(1) b c)
  have d: "drop (length (actions w)) (actions (out ?st)) =
       concat (map (\<lambda>(old, new). op_events dry (OpRename old new)) rs) @
       concat (map (\<lambda>full. op_events dry (OpDestroy full)) ds)"
    unfolding s(1) by simp
  have 2: "\<forall>full. Run [''zfs'', ''destroy'', full] \<in>
        set (drop (length (actions w)) (actions (out ?st))) \<longrightarrow> full \<in> full_name ` set snaps"
    unfolding d using commands_of_ops(1) [of _ dry rs ds] c by blast
  have 3: "\<forall>old new. Run [''zfs'', ''rename'', old, new] \<in>
        set (drop (length (actions w)) (actions (out ?st))) \<longrightarrow> old \<in> full_name ` set snaps"
    unfolding d using commands_of_ops(2) [of _ _ dry rs ds] b by blast
  show ?thesis by (intro conjI 1 2 3)
qed

theorem only_listed_names_touched_witness:
  "(\<forall>xs. set (rev xs) = set (xs :: string list)) \<and>
   (\<exists>rs ds.
     actions (out (snd (tiered_retention rev (\<lambda>w c. True) 0 now0 example_snaps spec0 False []))) =
       actions [] @ concat (map (\<lambda>(old, new). op_events False (OpRename old new)) rs) @
       concat (map (\<lambda>full. op_events False (OpDestroy full)) ds) \<and>
     (\<forall>(old, new) \<in> set rs. old \<in> full_name ` set example_snaps) \<and>
     (\<forall>full \<in> set ds. full \<in> full_name ` set example_snaps)) \<and>
   map full_name example_snaps =
     [''tank@snappy-2024-02-01_00:00:00_daily'', ''tank@snappy-2024-03-06_00:00:00_monthly'',
      ''tank@snappy-2024-03-07_00:00:00_daily'', ''tank@snappy-2024-03-10_00:00:00_daily'']"
proof -
  have h: "set (rev xs) = set xs" for xs :: "string list" by simp
  have e: "map full_name example_snaps =
     [''tank@snappy-2024-02-01_00:00:00_daily'', ''tank@snappy-2024-03-06_00:00:00_monthly'',
      ''tank@snappy-2024-03-07_00:00:00_daily'', ''tank@snappy-2024-03-10_00:00:00_daily'']"
    by code_simp
  show ?thesis
    by (intro conjI allI h e
        only_listed_names_touched [of rev "\<lambda>w c. True" 0 now0 example_snaps spec0 False "[]", OF h,
          THEN conjunct1])
qed







end
